theory Spec2Isabelle
  imports Main "HOL-Library.Sublist"
begin

section \<open>Record model (parser.ts)\<close>

text \<open>
  The string enum \<open>Type\<close>. At run time each member is the string given by
  \<open>Type_value\<close>; \<open>parseErrorType\<close> and the keys of \<open>TypeGroup\<close> use those strings.
\<close>

datatype Type = PASSED | ERROR | WARNING | FAILURE | INCOMPLETE | RISKY | SKIPPED | FAILED

fun Type_value :: "Type \<Rightarrow> string" where
  "Type_value PASSED = ''passed''"
| "Type_value ERROR = ''error''"
| "Type_value WARNING = ''warning''"
| "Type_value FAILURE = ''failure''"
| "Type_value INCOMPLETE = ''incomplete''"
| "Type_value RISKY = ''risky''"
| "Type_value SKIPPED = ''skipped''"
| "Type_value FAILED = ''failed''"

definition Type_members :: "Type list" where
  "Type_members = [PASSED, ERROR, WARNING, FAILURE, INCOMPLETE, RISKY, SKIPPED, FAILED]"

text \<open>
  Everything that the source raises or rejects with. \<open>TypeError\<close> is the JavaScript
  exception of reading a property of \<open>undefined\<close> or \<open>null\<close>; \<open>External\<close>
  carries the rejection of a collaborator that is not part of these sources (file read,
  XML parser, tokenizer, line locator).
\<close>

datatype error = TypeError | External string

text \<open>
  \<open>TypeGroup\<close> is a JavaScript \<open>Map\<close> built from eight pairs, \<open>TypeKeys\<close> the list
  of the four severities. The keys of the map are the run-time strings of the enum, so
  the query \<open>TypeGroup.get(k)\<close> is modelled on strings: \<open>Map.prototype.get\<close> never
  throws and returns \<open>undefined\<close> (here \<open>None\<close>) for a key that has no entry.
\<close>

definition TypeGroup :: "(Type \<times> Type) list" where
  "TypeGroup =
    [(PASSED, PASSED),
     (ERROR, ERROR),
     (WARNING, SKIPPED),
     (FAILURE, ERROR),
     (INCOMPLETE, INCOMPLETE),
     (RISKY, ERROR),
     (SKIPPED, SKIPPED),
     (FAILED, ERROR)]"

definition TypeKeys :: "Type list" where
  "TypeKeys = [PASSED, ERROR, INCOMPLETE, SKIPPED]"

definition TypeGroup_get :: "string \<Rightarrow> error + Type option" where
  "TypeGroup_get k = Inr (map_of (map (\<lambda>(t, g). (Type_value t, g)) TypeGroup) k)"

text \<open>The table of the specification, section 3, written out member by member.\<close>

fun spec_severity :: "Type \<Rightarrow> Type" where
  "spec_severity PASSED = PASSED"
| "spec_severity ERROR = ERROR"
| "spec_severity WARNING = SKIPPED"
| "spec_severity FAILURE = ERROR"
| "spec_severity INCOMPLETE = INCOMPLETE"
| "spec_severity RISKY = ERROR"
| "spec_severity SKIPPED = SKIPPED"
| "spec_severity FAILED = ERROR"

section \<open>Filesystem.lineAt (Filesystem.ts)\<close>

text \<open>
  \<open>lineAt\<close> returns a promise and registers two handlers on a \<open>readline\<close>
  interface. The promise is modelled by its state; settling a promise that is already
  settled has no effect. The handlers share the variables \<open>current\<close> and \<open>found\<close>.
  The file is given by the list of lines that \<open>readline\<close> emits for it, in order;
  \<open>rl.close()\<close> emits \<open>close\<close> at once, and the lines that \<open>readline\<close> had already
  buffered may still arrive afterwards, so the model delivers every line. \<open>close\<close> is
  emitted once: by \<open>rl.close()\<close>, or at the end of the input.
\<close>

datatype 'a promise = Pending | Resolved 'a | Rejected string

record lineAt_state =
  current :: int
  found :: bool
  closed :: bool
  outcome :: "string promise"

definition settle :: "string promise \<Rightarrow> lineAt_state \<Rightarrow> lineAt_state" where
  "settle p st = (if outcome st = Pending then st\<lparr>outcome := p\<rparr> else st)"

definition on_close :: "lineAt_state \<Rightarrow> lineAt_state" where
  "on_close st =
    (if closed st then st
     else let st1 = st\<lparr>closed := True\<rparr>
          in if found st1 = False then settle (Rejected '''') st1 else st1)"

definition on_line :: "int \<Rightarrow> string \<Rightarrow> lineAt_state \<Rightarrow> lineAt_state" where
  "on_line lineNumber line st =
    (let st1 = (if lineNumber = current st
                then settle (Resolved line) (on_close (st\<lparr>found := True\<rparr>))
                else st)
     in st1\<lparr>current := current st1 + 1\<rparr>)"

fun deliver :: "int \<Rightarrow> string list \<Rightarrow> lineAt_state \<Rightarrow> lineAt_state" where
  "deliver lineNumber [] st = on_close st"
| "deliver lineNumber (l # ls) st = deliver lineNumber ls (on_line lineNumber l st)"

definition lineAt :: "string list \<Rightarrow> int \<Rightarrow> string promise" where
  "lineAt file_lines lineNumber =
    outcome (deliver lineNumber file_lines
      \<lparr>current = 0, found = False, closed = False, outcome = Pending\<rparr>)"

section \<open>JavaScript strings\<close>

text \<open>
  A string is a list of code units; the model has the code units below 256, so the
  white space that \<open>trim\<close> and \<open>parseInt\<close> skip is TAB, LF, VT, FF, CR, SP and NBSP,
  the line terminators that \<open>.\<close> of a regular expression refuses are LF and CR, and
  \<open>toLowerCase\<close> moves \<open>A\<close>..\<open>Z\<close> and the capital letters of Latin-1. Numbers are
  integers (exact below \<open>2^53\<close>); \<open>NaN\<close> is \<open>None\<close>.
\<close>

abbreviation LF :: char where "LF \<equiv> CHR 0x0A"
abbreviation CR :: char where "CR \<equiv> CHR 0x0D"

definition is_space :: "char \<Rightarrow> bool" where
  "is_space c = (c \<in> set [CHR 0x09, LF, CHR 0x0B, CHR 0x0C, CR, CHR 0x20, CHR 0xA0])"

definition is_digit :: "char \<Rightarrow> bool" where
  "is_digit c = (c \<in> set ''0123456789'')"

definition is_line_terminator :: "char \<Rightarrow> bool" where
  "is_line_terminator c = (c = LF \<or> c = CR)"

definition js_trim :: "string \<Rightarrow> string" where
  "js_trim s = rev (dropWhile is_space (rev (dropWhile is_space s)))"

definition lower_char :: "char \<Rightarrow> char" where
  "lower_char c =
    (let n = (of_char c :: nat)
     in if (65 \<le> n \<and> n \<le> 90) \<or> (192 \<le> n \<and> n \<le> 222 \<and> n \<noteq> 215)
        then char_of (n + 32) else c)"

definition js_toLowerCase :: "string \<Rightarrow> string" where
  "js_toLowerCase s = map lower_char s"

text \<open>\<open>s.indexOf(t)\<close>: the first position where \<open>t\<close> starts, or \<open>-1\<close>.\<close>

fun index_from :: "string \<Rightarrow> string \<Rightarrow> int \<Rightarrow> int" where
  "index_from [] t i = (if t = [] then i else - 1)"
| "index_from (c # cs) t i = (if prefix t (c # cs) then i else index_from cs t (i + 1))"

definition js_indexOf :: "string \<Rightarrow> string \<Rightarrow> int" where
  "js_indexOf s t = index_from s t 0"

text \<open>
  \<open>s.split(sep)\<close> for a separator string that is not empty (the source only splits
  on \<open>\n\<close>, \<open>|n\<close>, \<open>::\<close> and \<open>=\<close>).
\<close>

function js_split_from :: "string \<Rightarrow> string \<Rightarrow> string \<Rightarrow> string list" where
  "js_split_from sep acc [] = [rev acc]"
| "js_split_from sep acc (c # cs) =
    (if sep \<noteq> [] \<and> prefix sep (c # cs)
     then rev acc # js_split_from sep [] (drop (length sep) (c # cs))
     else js_split_from sep (c # acc) cs)"
  by pat_completeness auto
termination
  by (relation "measure (\<lambda>(sep, acc, s). length s)") (auto simp: neq_Nil_conv)

definition js_split :: "string \<Rightarrow> string \<Rightarrow> string list" where
  "js_split sep s = js_split_from sep [] s"

text \<open>
  \<open>s.replace(pat, rep)\<close> with a string pattern: the first occurrence only. The
  replacements of the source (\<open>''\<close> and \<open>'::'\<close>) hold no \<open>$\<close> pattern.
\<close>

fun js_replace :: "string \<Rightarrow> string \<Rightarrow> string \<Rightarrow> string" where
  "js_replace pat rep [] = (if pat = [] then rep else [])"
| "js_replace pat rep (c # cs) =
    (if prefix pat (c # cs) then rep @ drop (length pat) (c # cs)
     else c # js_replace pat rep cs)"

text \<open>\<open>parseInt(s, 10)\<close>: white space, a sign, then the longest run of digits.\<close>

definition digits_value :: "string \<Rightarrow> nat" where
  "digits_value ds = foldl (\<lambda>n c. 10 * n + (of_char c - 48)) 0 ds"

definition js_parseInt :: "string \<Rightarrow> int option" where
  "js_parseInt s =
    (let t = dropWhile is_space s;
         neg = (t \<noteq> [] \<and> hd t = CHR ''-'');
         u = (if t \<noteq> [] \<and> (hd t = CHR ''-'' \<or> hd t = CHR ''+'') then tl t else t);
         ds = takeWhile is_digit u
     in if ds = [] then None
        else Some (if neg then - int (digits_value ds) else int (digits_value ds)))"

text \<open>The decimal text of an integer, as a template literal prints it.\<close>

fun dec_digits :: "nat \<Rightarrow> string" where
  "dec_digits n =
    (if n < 10 then [char_of (48 + n)]
     else dec_digits (n div 10) @ [char_of (48 + n mod 10)])"

declare dec_digits.simps [simp del]

definition js_number_string :: "int \<Rightarrow> string" where
  "js_number_string i = (if i < 0 then CHR ''-'' # dec_digits (nat (- i)) else dec_digits (nat i))"

subsection \<open>The two regular expressions\<close>

text \<open>
  \<open>/(.*):(\d+)/\<close> has no anchor. \<open>.\<close> does not cross a line terminator, so a match
  lies inside one maximal run without line terminators; the leftmost match starts at
  the first run that holds a colon followed by a digit, the greedy \<open>.*\<close> takes the
  last such colon of that run, and \<open>\d+\<close> all the digits behind it.
\<close>

fun runs :: "string \<Rightarrow> string list" where
  "runs [] = [[]]"
| "runs (c # cs) =
    (if is_line_terminator c then [] # runs cs
     else (case runs cs of [] \<Rightarrow> [[c]] | r # rs \<Rightarrow> (c # r) # rs))"

fun match_in_run :: "string \<Rightarrow> (string \<times> string) option" where
  "match_in_run [] = None"
| "match_in_run (c # cs) =
    (case match_in_run cs of
       Some (f, l) \<Rightarrow> Some (c # f, l)
     | None \<Rightarrow>
        (if c = CHR '':'' \<and> cs \<noteq> [] \<and> is_digit (hd cs)
         then Some ([], takeWhile is_digit cs) else None))"

fun first_match :: "string list \<Rightarrow> (string \<times> string) option" where
  "first_match [] = None"
| "first_match (r # rs) =
    (case match_in_run r of Some m \<Rightarrow> Some m | None \<Rightarrow> first_match rs)"

definition match_file_line :: "string \<Rightarrow> (string \<times> string) option" where
  "match_file_line s = first_match (runs s)"

text \<open>
  \<open>/(.*):(\d+)$/.test(s)\<close>: \<open>$\<close> is the end of the input, so the last run must end
  in a colon and at least one digit.
\<close>

definition test_file_line_end :: "string \<Rightarrow> bool" where
  "test_file_line_end s =
    (let r = rev (last (runs s)); ds = takeWhile is_digit r
     in ds \<noteq> [] \<and> (case dropWhile is_digit r of [] \<Rightarrow> False | c # _ \<Rightarrow> c = CHR '':''))"

section \<open>Records of the result\<close>

text \<open>
  \<open>Detail\<close>, \<open>Fault\<close> and \<open>TestCase\<close>. A field that may hold \<open>undefined\<close> or
  \<open>null\<close> is an option. \<open>tc_line\<close> is \<open>None\<close> for \<open>NaN\<close>. \<open>tc_time\<close> is the
  text handed to \<open>parseFloat\<close> (\<open>None\<close> for \<open>undefined\<close>): the conversion to a
  floating-point number is not modelled. \<open>tc_type\<close> is \<open>None\<close> when the event-stream
  parser finds no member of \<open>Type\<close> for the middle event.
\<close>

record Detail =
  detail_file :: string
  detail_line :: int

record Fault =
  fault_message :: "string option"
  fault_type :: "string option"
  fault_details :: "Detail list"

record TestCase =
  tc_name :: "string option"
  tc_class :: "string option"
  tc_classname :: "string option"
  tc_file :: "string option"
  tc_line :: "int option"
  tc_time :: "string option"
  tc_type :: "Type option"
  tc_fault :: "Fault option"

text \<open>Results of a list of computations, in order; the first error wins.\<close>

fun collect :: "(error + 'a) list \<Rightarrow> error + 'a list" where
  "collect [] = Inr []"
| "collect (r # rs) =
    (case r of
       Inl e \<Rightarrow> Inl e
     | Inr x \<Rightarrow> (case collect rs of Inl e \<Rightarrow> Inl e | Inr xs \<Rightarrow> Inr (x # xs)))"

text \<open>\<open>xs[i]\<close>, which is \<open>undefined\<close> out of range, and \<open>x || d\<close> on strings.\<close>

definition nth_opt :: "'a list \<Rightarrow> nat \<Rightarrow> 'a option" where
  "nth_opt xs i = (if i < length xs then Some (xs ! i) else None)"

definition or_null :: "string option \<Rightarrow> string option" where
  "or_null v = (case v of None \<Rightarrow> None | Some s \<Rightarrow> if s = [] then None else Some s)"

definition or_default :: "string option \<Rightarrow> string \<Rightarrow> string" where
  "or_default v d = (case v of None \<Rightarrow> d | Some s \<Rightarrow> if s = [] then d else s)"

section \<open>JUnitParser\<close>

text \<open>
  The tree that \<open>xml2js\<close> builds. An element is an object with the attribute map
  \<open>$\<close> and the text \<open>_\<close>, either of which may be missing; an element that
  \<open>xml2js\<close> renders as a bare string has neither. Child elements of a fault element
  are not part of the model. The children of a node are arrays, missing when the
  document has no such child.
\<close>

record fault_elem =
  elem_attrs :: "(string \<rightharpoonup> string) option"
  elem_text :: "string option"

record testcase_node =
  node_attrs :: "(string \<rightharpoonup> string) option"
  node_error :: "fault_elem list option"
  node_warning :: "fault_elem list option"
  node_failure :: "fault_elem list option"
  node_skipped :: "fault_elem list option"
  node_incomplete :: "fault_elem list option"

datatype suite_node =
  SuiteNode (testsuite: "suite_node list option") (testcase: "testcase_node list option")

text \<open>
  The collaborators that the parsers call and that are not part of these sources:
  the platform test behind \<open>os\<close>, \<open>LineData.lineNumber\<close>, \<open>minimistString(line)._\<close>
  (its tokens taken to be strings), \<open>readFileAsync\<close>, and \<open>xml2js\<close>'s \<open>parseString\<close>
  followed by the read of \<open>json.testsuites\<close>.
\<close>

record host =
  windows :: bool
  lineNumber :: "string \<Rightarrow> string \<Rightarrow> error + int"
  minimistString :: "string \<Rightarrow> error + string list"
  readFileAsync :: "string \<Rightarrow> error + string"
  xml2json :: "string \<Rightarrow> error + suite_node option"

text \<open>The object that \<open>getFaultNode\<close> returns: \<open>type\<close>, \<open>$\<close> and \<open>_\<close>.\<close>

record fault_node =
  fn_type :: Type
  fn_attrs :: "(string \<rightharpoonup> string) option"
  fn_text :: "string option"

definition parseErrorType :: "fault_elem option \<Rightarrow> error + Type" where
  "parseErrorType errorNode =
    (case errorNode of
       None \<Rightarrow> Inl TypeError
     | Some n \<Rightarrow>
        (case elem_attrs n of
           None \<Rightarrow> Inl TypeError
         | Some a \<Rightarrow>
            (case a ''type'' of
               None \<Rightarrow> Inl TypeError
             | Some t \<Rightarrow>
                (let errorType = js_toLowerCase t
                 in if js_indexOf errorType (Type_value SKIPPED) \<noteq> - 1 then Inr SKIPPED
                    else if js_indexOf errorType (Type_value INCOMPLETE) \<noteq> - 1 then Inr INCOMPLETE
                    else if js_indexOf errorType (Type_value FAILED) \<noteq> - 1 then Inr FAILED
                    else Inr ERROR))))"

text \<open>\<open>Object.assign({type: t}, e)\<close>; a source that is \<open>undefined\<close> adds nothing.\<close>

definition assign_type :: "Type \<Rightarrow> fault_elem option \<Rightarrow> fault_node" where
  "assign_type t e =
    (case e of
       None \<Rightarrow> \<lparr>fn_type = t, fn_attrs = None, fn_text = None\<rparr>
     | Some n \<Rightarrow> \<lparr>fn_type = t, fn_attrs = elem_attrs n, fn_text = elem_text n\<rparr>)"

definition getFaultNode :: "testcase_node \<Rightarrow> error + fault_node option" where
  "getFaultNode testCaseNode =
    (case node_error testCaseNode of
       Some es \<Rightarrow>
        (case parseErrorType (nth_opt es 0) of
           Inl e \<Rightarrow> Inl e
         | Inr t \<Rightarrow> Inr (Some (assign_type t (nth_opt es 0))))
     | None \<Rightarrow>
        (case node_warning testCaseNode of
           Some ws \<Rightarrow> Inr (Some (assign_type WARNING (nth_opt ws 0)))
         | None \<Rightarrow>
            (case node_failure testCaseNode of
               Some fs \<Rightarrow> Inr (Some (assign_type FAILURE (nth_opt fs 0)))
             | None \<Rightarrow>
                (if node_skipped testCaseNode \<noteq> None \<or> node_incomplete testCaseNode \<noteq> None
                 then Inr (Some \<lparr>fn_type = SKIPPED,
                                 fn_attrs = Some [''type'' \<mapsto> Type_value SKIPPED],
                                 fn_text = Some []\<rparr>)
                 else Inr None))))"

fun crlf2lf :: "string \<Rightarrow> string" where
  "crlf2lf (a # b # cs) = (if a = CR \<and> b = LF then LF # crlf2lf cs else a # crlf2lf (b # cs))"
| "crlf2lf cs = cs"

definition parseMessage :: "fault_node \<Rightarrow> error + string" where
  "parseMessage faultNode =
    (case fn_text faultNode of None \<Rightarrow> Inl TypeError | Some t \<Rightarrow> Inr (crlf2lf t))"

text \<open>
  \<open>parseDetails\<close> filters with the anchored expression and then destructures the
  match of the one without anchor; destructuring \<open>null\<close> would throw. The second
  group holds digits only, so \<open>parseInt\<close> gives their decimal value.
\<close>

definition parseDetails :: "string \<Rightarrow> error + Detail list" where
  "parseDetails message =
    collect (map (\<lambda>path.
        case match_file_line path of
          None \<Rightarrow> Inl TypeError
        | Some (file, line) \<Rightarrow>
            Inr \<lparr>detail_file = file, detail_line = int (digits_value line) - 1\<rparr>)
      (filter test_file_line_end (map js_trim (js_split [LF] message))))"

definition currentFile :: "Detail list \<Rightarrow> TestCase \<Rightarrow> string option \<times> int option" where
  "currentFile details testCase =
    (let details1 = filter (\<lambda>detail. tc_file testCase = Some (detail_file detail)) details
     in if length details1 \<noteq> 0
        then (Some (detail_file (last details1)), Some (detail_line (last details1)))
        else (tc_file testCase, tc_line testCase))"

definition strip_details :: "string \<Rightarrow> Detail list \<Rightarrow> string" where
  "strip_details message details =
    foldl (\<lambda>m detail.
        js_trim (js_replace (detail_file detail @ '':'' @ js_number_string (detail_line detail + 1)) [] m))
      message details"

definition parseTestCase :: "testcase_node \<Rightarrow> error + TestCase" where
  "parseTestCase testCaseNode =
    (case node_attrs testCaseNode of
       None \<Rightarrow> Inl TypeError
     | Some testCaseNodeAttr \<Rightarrow>
        (let testCase =
              \<lparr>tc_name = or_null (testCaseNodeAttr ''name''),
               tc_class = testCaseNodeAttr ''class'',
               tc_classname = or_null (testCaseNodeAttr ''classname''),
               tc_file = testCaseNodeAttr ''file'',
               tc_line = map_option (\<lambda>n. n - 1) (js_parseInt (or_default (testCaseNodeAttr ''line'') ''1'')),
               tc_time = Some (or_default (testCaseNodeAttr ''time'') ''0''),
               tc_type = Some PASSED,
               tc_fault = None\<rparr>
         in case getFaultNode testCaseNode of
              Inl e \<Rightarrow> Inl e
            | Inr None \<Rightarrow> Inr testCase
            | Inr (Some faultNode) \<Rightarrow>
               (case parseMessage faultNode of
                  Inl e \<Rightarrow> Inl e
                | Inr message \<Rightarrow>
                   (case parseDetails message of
                      Inl e \<Rightarrow> Inl e
                    | Inr details \<Rightarrow>
                       (case fn_attrs faultNode of
                          None \<Rightarrow> Inl TypeError
                        | Some faultNodeAttr \<Rightarrow>
                           Inr (testCase
                             \<lparr>tc_file := fst (currentFile details testCase),
                              tc_line := snd (currentFile details testCase),
                              tc_type := Some (fn_type faultNode),
                              tc_fault := Some
                                \<lparr>fault_message = Some (js_trim (strip_details message details)),
                                 fault_type = Some (or_default (faultNodeAttr ''type'') []),
                                 fault_details =
                                   filter (\<lambda>detail. Some (detail_file detail) \<noteq> tc_file testCase) details\<rparr>\<rparr>))))))"

fun parseTestSuite :: "suite_node \<Rightarrow> error + TestCase list" where
  "parseTestSuite (SuiteNode (Some suites) cases) =
    (case collect (map parseTestSuite suites) of
       Inl e \<Rightarrow> Inl e
     | Inr results \<Rightarrow> Inr (concat results))"
| "parseTestSuite (SuiteNode None (Some cases)) = collect (map parseTestCase cases)"
| "parseTestSuite (SuiteNode None None) = Inr []"

definition JUnitParser_parseString :: "host \<Rightarrow> string \<Rightarrow> error + TestCase list" where
  "JUnitParser_parseString h content =
    (case xml2json h content of
       Inl e \<Rightarrow> Inl e
     | Inr None \<Rightarrow> Inl TypeError
     | Inr (Some testsuites) \<Rightarrow> parseTestSuite testsuites)"

definition parseFile :: "host \<Rightarrow> (string \<Rightarrow> error + TestCase list) \<Rightarrow> string \<Rightarrow> error + TestCase list" where
  "parseFile h parseString fileName =
    (case readFileAsync h fileName of Inl e \<Rightarrow> Inl e | Inr content \<Rightarrow> parseString content)"

definition JUnitParser_parse :: "host \<Rightarrow> string \<Rightarrow> error + TestCase list" where
  "JUnitParser_parse h fileName = parseFile h (JUnitParser_parseString h) fileName"

section \<open>TeamCityParser\<close>

text \<open>
  An event is the options object that \<open>convertToArguments\<close> builds for one service
  message: a map from keys to strings, with the key \<open>type\<close> among them. A key that
  was assigned \<open>undefined\<close> reads like a key that is missing.
\<close>

type_synonym event = "string \<rightharpoonup> string"

text \<open>
  \<open>this.typeMap[k]\<close>. The result is \<open>None\<close> when it is no member of \<open>Type\<close>:
  \<open>undefined\<close> for a missing key (or an inherited member of the object for a key
  such as \<open>constructor\<close>).
\<close>

definition typeMap :: "string option \<Rightarrow> Type option" where
  "typeMap k =
    (if k = Some ''testPassed'' then Some PASSED
     else if k = Some ''testFailed'' then Some FAILURE
     else if k = Some ''testIgnored'' then Some SKIPPED
     else None)"

definition renamePath :: "host \<Rightarrow> string \<Rightarrow> string" where
  "renamePath h path =
    (if windows h then map (\<lambda>c. if c = CHR ''/'' then CHR 0x5C else c) path else path)"

definition convertToDetail :: "host \<Rightarrow> string \<Rightarrow> error + Detail list" where
  "convertToDetail h content =
    collect (map (\<lambda>path.
        case match_file_line path of
          None \<Rightarrow> Inl TypeError
        | Some (file, line) \<Rightarrow>
            Inr \<lparr>detail_file = renamePath h file, detail_line = int (digits_value line)\<rparr>)
      (filter (\<lambda>line. line \<noteq> []) (map js_trim (js_split ''|n'' content))))"

text \<open>
  \<open>groupByType\<close>: a \<open>reduce\<close> over the items whose accumulator is the array of
  groups and which shares the variable \<open>counter\<close>. \<open>counter\<close> never passes the
  length of the array, so \<open>results[counter] = []\<close> appends a group.
\<close>

definition group_step :: "event list list \<times> nat \<Rightarrow> event \<Rightarrow> event list list \<times> nat" where
  "group_step s item =
    (let results = fst s; counter = snd s;
         results1 = (if counter < length results then results else results @ [[]]);
         results2 = results1[counter := results1 ! counter @ [item]]
     in (results2, if item ''type'' = Some ''testFinished'' then counter + 1 else counter))"

definition groupByType :: "event list \<Rightarrow> event list list" where
  "groupByType items = fst (foldl group_step ([], 0) items)"

text \<open>
  The function that \<open>convertToTestCase\<close> maps over the groups. Its outer result is
  an exception thrown while the map runs, its inner result the promise it returns.
\<close>

definition testPassed_event :: event where
  "testPassed_event = [''type'' \<mapsto> ''testPassed'']"

definition splice_passed :: "event list \<Rightarrow> event list" where
  "splice_passed grp =
    (if length grp = 2 then take 1 grp @ [testPassed_event] @ drop 1 grp else grp)"

definition strip_scheme :: "string \<Rightarrow> string" where
  "strip_scheme s = (if prefix ''php_qn://'' s then drop (length ''php_qn://'') s else s)"

definition locationParts :: "host \<Rightarrow> string \<Rightarrow> string list" where
  "locationParts h locationHint =
    (let data = js_split ''::'' (js_replace ''::/'' ''::'' (strip_scheme (js_trim locationHint)))
     in data[0 := renamePath h (data ! 0)])"

definition convertGroup :: "host \<Rightarrow> event list \<Rightarrow> error + (error + TestCase)" where
  "convertGroup h grp0 =
    (let grp = splice_passed grp0
     in case nth_opt grp 0 of
          None \<Rightarrow> Inl TypeError
        | Some start \<Rightarrow>
           (case start ''locationHint'' of
              None \<Rightarrow> Inl TypeError
            | Some locationHint \<Rightarrow>
               (let data = locationParts h locationHint;
                    file = data ! 0;
                    className = nth_opt data 1;
                    name = nth_opt data 2
                in case nth_opt grp 1 of
                     None \<Rightarrow> Inl TypeError
                   | Some err \<Rightarrow>
                      (case nth_opt grp 2 of
                         None \<Rightarrow> Inl TypeError
                       | Some finish \<Rightarrow>
                          (let testCase =
                                \<lparr>tc_name = name,
                                 tc_class = className,
                                 tc_classname = None,
                                 tc_file = Some file,
                                 tc_line = Some 0,
                                 tc_time = finish ''duration'',
                                 tc_type = typeMap (err ''type''),
                                 tc_fault = None\<rparr>
                           in if typeMap (err ''type'') = Some PASSED
                              then Inr (case lineNumber h file
                                               (''function '' @ (case name of None \<Rightarrow> ''undefined'' | Some n \<Rightarrow> n)) of
                                          Inl e \<Rightarrow> Inl e
                                        | Inr line \<Rightarrow> Inr (testCase\<lparr>tc_line := Some line\<rparr>))
                              else (case err ''details'' of
                                      None \<Rightarrow> Inl TypeError
                                    | Some content \<Rightarrow>
                                       (case convertToDetail h content of
                                          Inl e \<Rightarrow> Inl e
                                        | Inr details \<Rightarrow>
                                           Inr (Inr
                                             ((case details of
                                                 [] \<Rightarrow> testCase
                                               | detail # _ \<Rightarrow>
                                                  testCase\<lparr>tc_file := Some (detail_file detail),
                                                            tc_line := Some (detail_line detail)\<rparr>)
                                              \<lparr>tc_fault := Some
                                                 \<lparr>fault_message = err ''message'',
                                                  fault_type = None,
                                                  fault_details =
                                                    filter (\<lambda>detail. detail_file detail \<noteq> file) details\<rparr>\<rparr>)))))))))"

text \<open>
  \<open>Promise.all\<close> over the mapped groups: an exception leaves the map before any
  promise is awaited; otherwise the call rejects when one promise does. When several
  lookups reject, the model reports the first in the order of the groups.
\<close>

definition convertToTestCase :: "host \<Rightarrow> event list list \<Rightarrow> error + TestCase list" where
  "convertToTestCase h groups =
    (case collect (map (convertGroup h) groups) of
       Inl e \<Rightarrow> Inl e
     | Inr promises \<Rightarrow> collect promises)"

text \<open>
  \<open>convertToArguments\<close>. \<open>split(/\r|\n/)\<close> is \<open>runs\<close>; \<open>strip_marker\<close> is
  \<open>replace(/^##teamcity\[|\]$/g, '')\<close>: the marker at the start and one closing
  bracket at the end.
\<close>

definition strip_marker :: "string \<Rightarrow> string" where
  "strip_marker s =
    (let t = (if prefix ''##teamcity['' s then drop (length ''##teamcity['') s else s)
     in if t \<noteq> [] \<and> last t = CHR '']'' then butlast t else t)"

definition toEvent :: "string list \<Rightarrow> event" where
  "toEvent argv =
    foldl (\<lambda>options arg. (let kv = js_split ''='' arg in options(kv ! 0 := nth_opt kv 1)))
      (\<lambda>k. if k = ''type'' then nth_opt argv 0 else None)
      (tl argv)"

definition convertToArguments :: "host \<Rightarrow> string \<Rightarrow> error + event list" where
  "convertToArguments h content =
    (case collect (map (\<lambda>line.
              case minimistString h
                     (map (\<lambda>c. if c = CHR 0x5C then CHR ''/'' else c) (strip_marker (js_trim line))) of
                Inl e \<Rightarrow> Inl e
              | Inr argv \<Rightarrow> Inr (toEvent argv))
            (filter (prefix ''##teamcity'') (runs content))) of
       Inl e \<Rightarrow> Inl e
     | Inr items \<Rightarrow>
        Inr (filter (\<lambda>item. item ''type'' \<notin>
                 set [Some ''testCount'', Some ''testSuiteStarted'', Some ''testSuiteFinished''])
               items))"

definition TeamCityParser_parseString :: "host \<Rightarrow> string \<Rightarrow> error + TestCase list" where
  "TeamCityParser_parseString h content =
    (case convertToArguments h content of
       Inl e \<Rightarrow> Inl e
     | Inr items \<Rightarrow> convertToTestCase h (groupByType items))"

definition TeamCityParser_parse :: "host \<Rightarrow> string \<Rightarrow> error + TestCase list" where
  "TeamCityParser_parse h content = TeamCityParser_parseString h content"

section \<open>Specification-side notions\<close>

text \<open>
  The classification of the specification, section 4.4, step 3: a case-insensitive
  substring test, with the priority skipped, incomplete, failed, and Error otherwise.
\<close>

definition contains_ci :: "string \<Rightarrow> string \<Rightarrow> bool" where
  "contains_ci s w = sublist w (js_toLowerCase s)"

definition spec_classify :: "string \<Rightarrow> Type" where
  "spec_classify t =
    (if contains_ci t ''skipped'' then SKIPPED
     else if contains_ci t ''incomplete'' then INCOMPLETE
     else if contains_ci t ''failed'' then FAILED
     else ERROR)"

text \<open>The fault node that stands for a \<open>skipped\<close> or an \<open>incomplete\<close> child.\<close>

definition skipped_fault_node :: fault_node where
  "skipped_fault_node =
    \<lparr>fn_type = SKIPPED, fn_attrs = Some [''type'' \<mapsto> ''skipped''], fn_text = Some []\<rparr>"

definition type_of_fault :: "fault_node option \<Rightarrow> Type" where
  "type_of_fault f = (case f of None \<Rightarrow> PASSED | Some faultNode \<Rightarrow> fn_type faultNode)"

text \<open>A test case whose only child is an error of a type that holds \<open>Skipped\<close>.\<close>

definition skipped_error_elem :: fault_elem where
  "skipped_error_elem =
    \<lparr>elem_attrs = Some [''type'' \<mapsto> ''PHPUnit_Framework_SkippedTestError''],
     elem_text = Some ''Skipped Test''\<rparr>"

definition skipped_error_node :: testcase_node where
  "skipped_error_node =
    \<lparr>node_attrs = Some [''name'' \<mapsto> ''testSkipped'', ''file'' \<mapsto> ''b.php'', ''line'' \<mapsto> ''13''],
     node_error = Some [skipped_error_elem],
     node_warning = None, node_failure = None, node_skipped = None, node_incomplete = None\<rparr>"

text \<open>
  A text matches \<open>/(.*):(\d+)/\<close> when it holds a colon with a digit right behind it.
\<close>

fun has_colon_digit :: "string \<Rightarrow> bool" where
  "has_colon_digit (a # b # cs) = ((a = CHR '':'' \<and> is_digit b) \<or> has_colon_digit (b # cs))"
| "has_colon_digit cs = False"

text \<open>
  The location that the attributes of a test case give, before any detail is looked
  at: \<open>file\<close>, and \<open>parseInt(line || 1, 10) - 1\<close>.
\<close>

definition nominal_line :: "(string \<rightharpoonup> string) \<Rightarrow> int option" where
  "nominal_line a = map_option (\<lambda>n. n - 1) (js_parseInt (or_default (a ''line'') ''1''))"

text \<open>
  A failed test case of \<open>b.php\<close>, line 13, whose message ends in two locations, the
  second of which lies in \<open>b.php\<close>.
\<close>

definition two_token_node :: testcase_node where
  "two_token_node =
    \<lparr>node_attrs = Some [''name'' \<mapsto> ''testFailed'', ''file'' \<mapsto> ''b.php'', ''line'' \<mapsto> ''13''],
     node_error = None,
     node_warning = None,
     node_failure = Some [\<lparr>elem_attrs = Some [''type'' \<mapsto> ''AssertionError''],
                            elem_text = Some (''boom'' @ [LF] @ ''a.php:5'' @ [LF] @ ''b.php:9'' @ [LF])\<rparr>],
     node_skipped = None, node_incomplete = None\<rparr>"

text \<open>
  The grouping of the specification, section 4.5, stage 2: walk the events in order,
  add each to the current group, and close the group right after a \<open>testFinished\<close>.
\<close>

definition is_finished :: "event \<Rightarrow> bool" where
  "is_finished e = (e ''type'' = Some ''testFinished'')"

fun spec_groups :: "event list \<Rightarrow> event list \<Rightarrow> event list list" where
  "spec_groups cur [] = (case cur of [] \<Rightarrow> [] | _ # _ \<Rightarrow> [cur])"
| "spec_groups cur (e # es) =
    (if is_finished e then (cur @ [e]) # spec_groups [] es else spec_groups (cur @ [e]) es)"

text \<open>
  A host for the examples: not Windows, every line lookup resolves with 13, the
  tokenizer splits at spaces (as \<open>minimistString\<close> does on words without quotes and
  dashes), no file can be read, and the XML parser rejects every text.
\<close>

definition example_host :: host where
  "example_host =
    \<lparr>windows = False,
     lineNumber = (\<lambda>file text. Inr 13),
     minimistString = (\<lambda>line. Inr (js_split '' '' line)),
     readFileAsync = (\<lambda>fileName. Inl (External ''ENOENT'')),
     xml2json = (\<lambda>xml. Inl (External ''not well-formed''))\<rparr>"

definition started_event :: event where
  "started_event =
    [''type'' \<mapsto> ''testStarted'', ''locationHint'' \<mapsto> ''php_qn://t.php::Cls::testA'']"

definition finished_event :: event where
  "finished_event = [''type'' \<mapsto> ''testFinished'', ''duration'' \<mapsto> ''3'']"

text \<open>
  The segments of a \<open>details\<close> field that \<open>convertToDetail\<close> turns into details, and
  the detail of a segment \<open>file:digits\<close>.
\<close>

definition segments :: "string \<Rightarrow> string list" where
  "segments content = filter (\<lambda>line. line \<noteq> []) (map js_trim (js_split ''|n'' content))"

definition segment_of :: "string \<times> string \<Rightarrow> string" where
  "segment_of loc = fst loc @ CHR '':'' # snd loc"

definition well_formed_loc :: "string \<times> string \<Rightarrow> bool" where
  "well_formed_loc loc =
    (snd loc \<noteq> [] \<and> list_all is_digit (snd loc) \<and> \<not> list_ex is_line_terminator (fst loc))"

definition detail_of :: "host \<Rightarrow> string \<times> string \<Rightarrow> Detail" where
  "detail_of h loc =
    \<lparr>detail_file = renamePath h (fst loc), detail_line = int (digits_value (snd loc))\<rparr>"

text \<open>What the examples observe of a test case: file, line, and the details of its fault.\<close>

definition locations :: "TestCase \<Rightarrow> string option \<times> int option \<times> (string \<times> int) list option" where
  "locations tc =
    (tc_file tc, tc_line tc,
     map_option (\<lambda>fault. map (\<lambda>d. (detail_file d, detail_line d)) (fault_details fault)) (tc_fault tc))"

definition observe :: "error + TestCase list \<Rightarrow> error + (string option \<times> int option \<times> (string \<times> int) list option) list" where
  "observe r = (case r of Inl e \<Rightarrow> Inl e | Inr tcs \<Rightarrow> Inr (map locations tcs))"

text \<open>
  Failed events: one that carries its locations in \<open>message\<close> only, as the example of
  the specification has it, and two that carry them in \<open>details\<close>.
\<close>

definition failed_message_event :: event where
  "failed_message_event = [''type'' \<mapsto> ''testFailed'', ''message'' \<mapsto> ''a.php:5|nb.php:9'']"

definition failed_details_event :: event where
  "failed_details_event =
    [''type'' \<mapsto> ''testFailed'', ''message'' \<mapsto> ''boom'', ''details'' \<mapsto> ''a.php:5|nb.php:9'']"

definition failed_three_event :: event where
  "failed_three_event =
    [''type'' \<mapsto> ''testFailed'', ''message'' \<mapsto> ''boom'', ''details'' \<mapsto> '' a.php:5|n t.php:9|n b.php:3|n '']"

text \<open>
  The groups on which the function mapped by \<open>convertToTestCase\<close> throws: fewer than
  three events once \<open>testPassed\<close> is spliced in, a start event without
  \<open>locationHint\<close>, or a middle event that did not pass and has no \<open>details\<close> or a
  segment that \<open>/(.*):(\d+)/\<close> does not match.
\<close>

definition malformed_group :: "event list \<Rightarrow> bool" where
  "malformed_group g =
    (case splice_passed g of
       start # err # finish # rest \<Rightarrow>
         start ''locationHint'' = None \<or>
         (typeMap (err ''type'') \<noteq> Some PASSED \<and>
          (case err ''details'' of
             None \<Rightarrow> True
           | Some content \<Rightarrow> list_ex (\<lambda>seg. \<not> has_colon_digit seg) (segments content)))
     | _ \<Rightarrow> True)"

text \<open>
  Two streams for the example tokenizer: a failed test whose \<open>details\<close> hold no
  location, and a failed test whose location hint has two parts only.
\<close>

definition malformed_details_text :: string where
  "malformed_details_text =
     ''##teamcity[testStarted locationHint=php_qn://t.php::Cls::testA]'' @ [LF] @
     ''##teamcity[testFailed message=boom details=oops]'' @ [LF] @
     ''##teamcity[testFinished duration=3]''"

definition two_part_hint_text :: string where
  "two_part_hint_text =
     ''##teamcity[testStarted locationHint=php_qn://t.php::Cls]'' @ [LF] @
     ''##teamcity[testFailed message=boom details=a.php:5]'' @ [LF] @
     ''##teamcity[testFinished duration=3]''"

definition names :: "error + TestCase list \<Rightarrow> error + (string option \<times> string option) list" where
  "names r = (case r of Inl e \<Rightarrow> Inl e | Inr tcs \<Rightarrow> Inr (map (\<lambda>tc. (tc_class tc, tc_name tc)) tcs))"

text \<open>
  A report with one test case that was skipped, and the tree that \<open>xml2js\<close> builds
  for it: the attributes of the test case under \<open>$\<close>, and the empty element
  \<open>skipped\<close> as an array that holds the empty string. \<open>junit_host\<close> parses this
  report and rejects every other text; \<open>file_host\<close> holds the report in the file
  \<open>junit.xml\<close> and has no other file.
\<close>

definition skipped_xml :: string where
  "skipped_xml =
     ''<testsuites><testcase name='' @ [CHR 0x22] @ ''testSkipped'' @ [CHR 0x22] @
     ''><skipped/></testcase></testsuites>''"

definition skipped_document :: suite_node where
  "skipped_document =
    SuiteNode None
      (Some [\<lparr>node_attrs = Some [''name'' \<mapsto> ''testSkipped''],
               node_error = None, node_warning = None, node_failure = None,
               node_skipped = Some [\<lparr>elem_attrs = None, elem_text = None\<rparr>],
               node_incomplete = None\<rparr>])"

definition junit_host :: host where
  "junit_host =
    example_host\<lparr>xml2json :=
      (\<lambda>xml. if xml = skipped_xml then Inr (Some skipped_document)
             else Inl (External ''not well-formed''))\<rparr>"

definition file_host :: host where
  "file_host =
    junit_host\<lparr>readFileAsync :=
      (\<lambda>fileName. if fileName = ''junit.xml'' then Inr skipped_xml
                  else Inl (External ''ENOENT''))\<rparr>"

definition passed_text :: string where
  "passed_text =
     ''##teamcity[testStarted locationHint=php_qn://t.php::Cls::testA]'' @ [LF] @
     ''##teamcity[testFinished duration=3]''"


text \<open>
  The invariant of the specification, section 3: either there is no fault and the
  type is Passed, or there is a fault and the type is not Passed.
\<close>

definition fault_matches_type :: "TestCase \<Rightarrow> bool" where
  "fault_matches_type tc =
    ((tc_fault tc = None \<and> tc_type tc = Some PASSED) \<or>
     (tc_fault tc \<noteq> None \<and> tc_type tc \<noteq> Some PASSED))"





section \<open>Severity grouping\<close>

lemma TypeGroup_get_member:
  "TypeGroup_get (Type_value t) = Inr (Some (spec_severity t))"
  by (cases t) (simp_all add: TypeGroup_get_def TypeGroup_def)

lemma TypeGroup_get_other:
  "k \<notin> set (map Type_value Type_members) \<Longrightarrow> TypeGroup_get k = Inr None"
  by (simp add: TypeGroup_get_def TypeGroup_def Type_members_def)

lemma spec_severity_TypeKeys: "spec_severity t \<in> set TypeKeys"
  by (cases t) (simp_all add: TypeKeys_def)

lemma range_Type_value: "range Type_value = set (map Type_value Type_members)"
proof -
  have "UNIV = set Type_members"
  proof -
    have "t \<in> set Type_members" for t
      by (cases t) (simp_all add: Type_members_def)
    then show ?thesis by auto
  qed
  then show ?thesis by (simp add: image_def) 
qed

text \<open>
  Claim C9, as the code has it. \<open>TypeGroup.get\<close> of the run-time string of a member
  of \<open>Type\<close> returns the severity of the table of the specification, and that severity
  is one of the four of \<open>TypeKeys\<close>. For a key that is the string of no member the query
  does not fail: it returns \<open>undefined\<close>.
\<close>

theorem TypeGroup_get_table:
  "TypeGroup_get (Type_value t) = Inr (Some (spec_severity t)) \<and>
   spec_severity t \<in> set TypeKeys \<and>
   (k \<notin> range Type_value \<longrightarrow> TypeGroup_get k = Inr None)"
  by (simp add: TypeGroup_get_member spec_severity_TypeKeys TypeGroup_get_other range_Type_value)

theorem TypeGroup_get_table_witness:
  "TypeGroup_get ''warning'' = Inr (Some SKIPPED) \<and> SKIPPED \<in> set TypeKeys \<and>
   ''nunit'' \<notin> range Type_value \<and> TypeGroup_get ''nunit'' = Inr None"
  using TypeGroup_get_table [of WARNING "''nunit''"]
  by (simp add: range_Type_value Type_members_def)

text \<open>
  Claim C9 as stated asks for an error on a key outside the enumeration. The key
  \<open>nunit\<close> is the string of no member, and the query returns \<open>undefined\<close> for it.
\<close>

theorem TypeGroup_get_outside_counterexample:
  "''nunit'' \<notin> set (map Type_value Type_members) \<and> TypeGroup_get ''nunit'' = Inr None"
  by (simp add: Type_members_def TypeGroup_get_def TypeGroup_def)

section \<open>Filesystem.lineAt\<close>

lemma on_close_settled: "outcome st \<noteq> Pending \<Longrightarrow> outcome (on_close st) = outcome st"
  by (simp add: on_close_def settle_def Let_def)

lemma on_line_settled: "outcome st \<noteq> Pending \<Longrightarrow> outcome (on_line n l st) = outcome st"
  by (simp add: on_line_def on_close_def settle_def Let_def)

lemma deliver_settled: "outcome st \<noteq> Pending \<Longrightarrow> outcome (deliver n ls st) = outcome st"
proof (induction ls arbitrary: st)
  case Nil
  then show ?case by (simp add: on_close_settled)
next
  case (Cons l ls)
  from Cons.prems have "outcome (on_line n l st) \<noteq> Pending"
    by (simp add: on_line_settled)
  then show ?case using Cons.IH Cons.prems by (simp add: on_line_settled)
qed

lemma on_line_hit:
  "outcome st = Pending \<Longrightarrow> closed st = False \<Longrightarrow> n = current st \<Longrightarrow>
   outcome (on_line n l st) = Resolved l"
  by (simp add: on_line_def on_close_def settle_def Let_def)

lemma on_line_miss:
  "n \<noteq> current st \<Longrightarrow> on_line n l st = st\<lparr>current := current st + 1\<rparr>"
  by (simp add: on_line_def Let_def)

lemma deliver_pending:
  "outcome st = Pending \<Longrightarrow> closed st = False \<Longrightarrow> found st = False \<Longrightarrow>
   outcome (deliver n ls st) =
     (if current st \<le> n \<and> n < current st + int (length ls)
      then Resolved (ls ! nat (n - current st)) else Rejected '''')"
proof (induction ls arbitrary: st)
  case Nil
  then show ?case by (simp add: on_close_def settle_def Let_def)
next
  case (Cons l ls)
  show ?case
  proof (cases "n = current st")
    case True
    have "outcome (on_line n l st) = Resolved l"
      using Cons.prems True by (simp add: on_line_hit)
    then have "outcome (deliver n ls (on_line n l st)) = Resolved l"
      by (simp add: deliver_settled)
    then show ?thesis using True by simp
  next
    case False
    let ?st = "st\<lparr>current := current st + 1\<rparr>"
    have step: "on_line n l st = ?st" using False by (rule on_line_miss)
    have "outcome (deliver n ls ?st) =
      (if current ?st \<le> n \<and> n < current ?st + int (length ls)
       then Resolved (ls ! nat (n - current ?st)) else Rejected '''')"
      using Cons.prems by (intro Cons.IH) simp_all
    moreover have "current st < n \<Longrightarrow> (l # ls) ! nat (n - current st) = ls ! nat (n - (current st + 1))"
    proof -
      assume a: "current st < n"
      then have "nat (n - current st) = Suc (nat (n - (current st + 1)))" by simp
      then show ?thesis by simp
    qed
    ultimately show ?thesis using False step by auto
  qed
qed

text \<open>
  Claim C10. For a file whose lines are \<open>file_lines\<close>, \<open>lineAt\<close> resolves with the
  line at index \<open>n\<close> when the file has more than \<open>n\<close> lines, and rejects (with the
  empty string) otherwise; it never resolves with anything else.
\<close>

theorem lineAt_result:
  "lineAt file_lines n =
    (if 0 \<le> n \<and> n < int (length file_lines) then Resolved (file_lines ! nat n) else Rejected '''')"
  unfolding lineAt_def by (subst deliver_pending) simp_all

theorem lineAt_result_witness:
  "lineAt [''a'', ''b'', ''c''] 1 = Resolved ''b'' \<and> lineAt [''a'', ''b'', ''c''] 3 = Rejected ''''"
  using lineAt_result [of "[''a'', ''b'', ''c'']" 1] lineAt_result [of "[''a'', ''b'', ''c'']" 3]
  by simp

section \<open>JUnitParser: the fault node and its type\<close>

lemma index_from_found: "0 \<le> i \<Longrightarrow> (index_from s t i \<noteq> - 1) = sublist t s"
proof (induction s arbitrary: i)
  case Nil
  then show ?case by auto
next
  case (Cons c cs)
  show ?case
  proof (cases "prefix t (c # cs)")
    case True
    then show ?thesis using Cons.prems by (auto simp: sublist_Cons_right)
  next
    case False
    have "(index_from cs t (i + 1) \<noteq> - 1) = sublist t cs"
      using Cons.prems by (intro Cons.IH) simp
    then show ?thesis using False by (simp add: sublist_Cons_right)
  qed
qed

lemma js_indexOf_found: "(js_indexOf s t \<noteq> - 1) = sublist t s"
  by (simp add: js_indexOf_def index_from_found)

text \<open>
  \<open>contains_ci s w\<close> says that some substring of \<open>s\<close> is \<open>w\<close> up to the case of
  its letters (\<open>w\<close> being in lower case).
\<close>

lemma contains_ci_iff:
  "contains_ci s w = (\<exists>ps u ss. s = ps @ u @ ss \<and> js_toLowerCase u = w)"
proof
  assume "contains_ci s w"
  then obtain ps ss where h: "map lower_char s = ps @ w @ ss"
    by (auto simp: contains_ci_def js_toLowerCase_def sublist_def)
  from h [unfolded map_eq_append_conv]
  obtain a b where ab: "s = a @ b" "w @ ss = map lower_char b"
    by blast
  from ab(2) [symmetric, unfolded map_eq_append_conv]
  obtain u c where uc: "b = u @ c" "w = map lower_char u"
    by blast
  have "s = a @ u @ c \<and> js_toLowerCase u = w"
    using ab(1) uc by (simp add: js_toLowerCase_def)
  then show "\<exists>ps u ss. s = ps @ u @ ss \<and> js_toLowerCase u = w"
    by blast
next
  assume "\<exists>ps u ss. s = ps @ u @ ss \<and> js_toLowerCase u = w"
  then obtain ps u ss where "s = ps @ u @ ss" "map lower_char u = w"
    unfolding js_toLowerCase_def by blast
  then have "map lower_char s = map lower_char ps @ w @ map lower_char ss" by simp
  then show "contains_ci s w"
    unfolding contains_ci_def js_toLowerCase_def sublist_def by blast
qed

lemma parseErrorType_classify:
  "elem_attrs e = Some a \<Longrightarrow> a ''type'' = Some t \<Longrightarrow> parseErrorType (Some e) = Inr (spec_classify t)"
  by (simp add: parseErrorType_def spec_classify_def contains_ci_def js_indexOf_found Let_def)

lemma parseTestCase_type:
  "parseTestCase n = Inr tc \<Longrightarrow> getFaultNode n = Inr f \<Longrightarrow> tc_type tc = Some (type_of_fault f)"
  by (auto simp: parseTestCase_def type_of_fault_def Let_def split: option.splits sum.splits)

text \<open>
  Claim C4. The fault node of a test case is its first \<open>error\<close> element if it has
  one, else its first \<open>warning\<close>, else its first \<open>failure\<close>, else one fixed node for
  \<open>skipped\<close> and \<open>incomplete\<close> alike, else none. The type of an error node is the
  classification of its declared type (skipped, then incomplete, then failed, else
  Error, without regard to case), the type of the others is Warning, Failure and
  Skipped, and the test case that \<open>parseTestCase\<close> returns has the type of the fault
  node, Passed when there is none.
\<close>

theorem getFaultNode_priority:
  "(node_error n = Some (e # es) \<and> elem_attrs e = Some a \<and> a ''type'' = Some t \<longrightarrow>
      getFaultNode n = Inr (Some (assign_type (spec_classify t) (Some e)))) \<and>
   (node_error n = None \<and> node_warning n = Some ws \<longrightarrow>
      getFaultNode n = Inr (Some (assign_type WARNING (nth_opt ws 0)))) \<and>
   (node_error n = None \<and> node_warning n = None \<and> node_failure n = Some fs \<longrightarrow>
      getFaultNode n = Inr (Some (assign_type FAILURE (nth_opt fs 0)))) \<and>
   (node_error n = None \<and> node_warning n = None \<and> node_failure n = None \<and>
    (node_skipped n \<noteq> None \<or> node_incomplete n \<noteq> None) \<longrightarrow>
      getFaultNode n = Inr (Some skipped_fault_node)) \<and>
   (node_error n = None \<and> node_warning n = None \<and> node_failure n = None \<and>
    node_skipped n = None \<and> node_incomplete n = None \<longrightarrow>
      getFaultNode n = Inr None) \<and>
   (parseTestCase n = Inr tc \<and> getFaultNode n = Inr f \<longrightarrow> tc_type tc = Some (type_of_fault f))"
proof -
  have "getFaultNode n = Inr (Some (assign_type (spec_classify t) (Some e)))"
    if "node_error n = Some (e # es)" "elem_attrs e = Some a" "a ''type'' = Some t"
    using that by (simp add: getFaultNode_def nth_opt_def parseErrorType_classify)
  moreover have "getFaultNode n = Inr (Some skipped_fault_node)"
    if "node_error n = None" "node_warning n = None" "node_failure n = None"
       "node_skipped n \<noteq> None \<or> node_incomplete n \<noteq> None"
    using that by (auto simp: getFaultNode_def skipped_fault_node_def)
  ultimately show ?thesis
    by (auto simp: getFaultNode_def parseTestCase_type)
qed

theorem getFaultNode_priority_witness:
  "node_error skipped_error_node = Some [skipped_error_elem] \<and>
   contains_ci ''PHPUnit_Framework_SkippedTestError'' ''skipped'' \<and>
   getFaultNode skipped_error_node = Inr (Some (assign_type SKIPPED (Some skipped_error_elem))) \<and>
   (\<exists>tc. parseTestCase skipped_error_node = Inr tc \<and> tc_type tc = Some SKIPPED)"
proof -
  have c: "spec_classify ''PHPUnit_Framework_SkippedTestError'' = SKIPPED"
    by code_simp
  have k: "contains_ci ''PHPUnit_Framework_SkippedTestError'' ''skipped''"
    by code_simp
  have e: "node_error skipped_error_node = Some [skipped_error_elem] \<and>
      elem_attrs skipped_error_elem = Some [''type'' \<mapsto> ''PHPUnit_Framework_SkippedTestError''] \<and>
      [''type'' \<mapsto> ''PHPUnit_Framework_SkippedTestError''] ''type'' = Some ''PHPUnit_Framework_SkippedTestError''"
    by (simp add: skipped_error_node_def skipped_error_elem_def)
  have p: "case parseTestCase skipped_error_node of Inl e \<Rightarrow> False | Inr tc \<Rightarrow> True"
    by code_simp
  then obtain tc where tc: "parseTestCase skipped_error_node = Inr tc"
    by (auto split: sum.splits)
  note t = getFaultNode_priority [of skipped_error_node skipped_error_elem "[]"
      "[''type'' \<mapsto> ''PHPUnit_Framework_SkippedTestError'']" "''PHPUnit_Framework_SkippedTestError''"
      _ _ tc "Some (assign_type SKIPPED (Some skipped_error_elem))"]
  from t e c have g: "getFaultNode skipped_error_node = Inr (Some (assign_type SKIPPED (Some skipped_error_elem)))"
    by simp
  with t tc have "tc_type tc = Some SKIPPED"
    by (simp add: type_of_fault_def assign_type_def)
  with e k g tc show ?thesis by simp
qed

section \<open>The regular expressions\<close>

lemma match_in_run_None: "(match_in_run r = None) = (\<not> has_colon_digit r)"
proof (induction r rule: has_colon_digit.induct)
  case (1 a b cs)
  then show ?case by (auto split: option.splits)
qed simp_all

lemma runs_not_Nil: "runs s \<noteq> []"
  by (induction s) (auto split: list.splits)

lemma is_digit_not_terminator: "is_digit c \<Longrightarrow> \<not> is_line_terminator c"
  by (auto simp: is_digit_def is_line_terminator_def)

lemma has_colon_digit_Cons:
  "has_colon_digit (c # r) = ((c = CHR '':'' \<and> r \<noteq> [] \<and> is_digit (hd r)) \<or> has_colon_digit r)"
  by (cases r) auto

lemma has_colon_digit_runs:
  "has_colon_digit s = (\<exists>r \<in> set (runs s). has_colon_digit r)"
proof (induction s)
  case Nil
  then show ?case by simp
next
  case (Cons c s)
  obtain r rs where rs: "runs s = r # rs"
    using runs_not_Nil [of s] by (cases "runs s") auto
  have hd_eq: "s \<noteq> [] \<Longrightarrow> \<not> is_line_terminator (hd s) \<Longrightarrow> r \<noteq> [] \<and> hd r = hd s"
    using rs by (cases s) (auto split: if_splits list.splits)
  have hd_term: "s \<noteq> [] \<Longrightarrow> is_line_terminator (hd s) \<Longrightarrow> r = []"
    using rs by (cases s) (auto split: if_splits list.splits)
  have hd_nil: "s = [] \<Longrightarrow> r = []"
    using rs by auto
  show ?case
  proof (cases "is_line_terminator c")
    case True
    then have "c \<noteq> CHR '':''" by (auto simp: is_line_terminator_def)
    then show ?thesis using True Cons.IH by (simp add: has_colon_digit_Cons)
  next
    case False
    have first: "(s \<noteq> [] \<and> is_digit (hd s)) = (r \<noteq> [] \<and> is_digit (hd r))"
    proof (cases "s = []")
      case True
      then show ?thesis using hd_nil by simp
    next
      case nonempty: False
      show ?thesis
      proof (cases "is_line_terminator (hd s)")
        case True
        then have "r = []" using nonempty hd_term by simp
        moreover have "\<not> is_digit (hd s)" using True is_digit_not_terminator by blast
        ultimately show ?thesis by simp
      next
        case False
        then show ?thesis using nonempty hd_eq by simp
      qed
    qed
    show ?thesis
      using False Cons.IH rs first by (auto simp: has_colon_digit_Cons)
  qed
qed

lemma match_in_run_Some: "match_in_run r = Some m \<Longrightarrow> has_colon_digit r"
  using match_in_run_None [of r] by auto

lemma first_match_None: "(first_match rs = None) = (\<forall>r \<in> set rs. \<not> has_colon_digit r)"
proof (induction rs)
  case Nil
  then show ?case by simp
next
  case (Cons r rs)
  show ?case
  proof (cases "match_in_run r")
    case None
    then show ?thesis using Cons.IH by (simp add: match_in_run_None [symmetric])
  next
    case (Some m)
    then show ?thesis using match_in_run_Some by auto
  qed
qed

lemma match_file_line_None: "(match_file_line s = None) = (\<not> has_colon_digit s)"
  using has_colon_digit_runs [of s] by (simp add: match_file_line_def first_match_None)

lemma has_colon_digit_mid: "is_digit d \<Longrightarrow> has_colon_digit (x @ CHR '':'' # d # y)"
  by (induction x) (auto simp: has_colon_digit_Cons)

lemma test_end_has_colon_digit:
  assumes "test_file_line_end s"
  shows "has_colon_digit s"
proof -
  let ?r = "rev (last (runs s))"
  from assms obtain rest where d: "takeWhile is_digit ?r \<noteq> []"
    and c: "dropWhile is_digit ?r = CHR '':'' # rest"
    by (auto simp: test_file_line_end_def Let_def split: list.splits)
  let ?ds = "takeWhile is_digit ?r"
  have "?r = ?ds @ CHR '':'' # rest"
    using c takeWhile_dropWhile_id [of is_digit ?r] by simp
  then have "rev ?r = rev rest @ CHR '':'' # rev ?ds" by (metis rev.simps(2) rev_append append_assoc append_Cons append_Nil)
  moreover obtain x xs where x: "rev ?ds = x # xs"
    using d by (cases "rev ?ds") auto
  moreover have "is_digit x"
  proof -
    have "x \<in> set ?ds" using x by (metis list.set_intros(1) set_rev)
    then show ?thesis by (auto dest: set_takeWhileD)
  qed
  ultimately have "has_colon_digit (last (runs s))"
    using has_colon_digit_mid [of x "rev rest" xs] by simp
  then show ?thesis
    using has_colon_digit_runs [of s] runs_not_Nil [of s] last_in_set by blast
qed

section \<open>Lists of results\<close>

lemma collect_map_Inr: "collect (map Inr xs) = Inr xs"
  by (induction xs) simp_all

lemma collect_Inr_D: "collect rs = Inr xs \<Longrightarrow> rs = map Inr xs"
proof (induction rs arbitrary: xs)
  case Nil
  then show ?case by simp
next
  case (Cons r rs)
  from Cons.prems obtain y ys where "r = Inr y" "collect rs = Inr ys" "xs = y # ys"
    by (auto split: sum.splits)
  then show ?case using Cons.IH by simp
qed

lemma collect_Inr: "(collect rs = Inr xs) = (rs = map Inr xs)"
proof
  show "collect rs = Inr xs \<Longrightarrow> rs = map Inr xs" by (rule collect_Inr_D)
  show "rs = map Inr xs \<Longrightarrow> collect rs = Inr xs" by (simp add: collect_map_Inr)
qed

lemma collect_map_total:
  "(\<And>x. x \<in> set xs \<Longrightarrow> \<exists>y. f x = Inr y) \<Longrightarrow> \<exists>ys. collect (map f xs) = Inr ys"
proof (induction xs)
  case Nil
  then show ?case by simp
next
  case (Cons x xs)
  then obtain y where "f x = Inr y" by auto
  moreover from Cons obtain ys where "collect (map f xs) = Inr ys" by auto
  ultimately show ?case by simp
qed

lemma collect_Inl:
  "(\<exists>e. collect rs = Inl e) = (\<exists>r \<in> set rs. \<exists>e. r = Inl e)"
  by (induction rs) (auto split: sum.splits)

section \<open>JUnitParser: the location of a failed test case\<close>

lemma parseDetails_total: "\<exists>details. parseDetails message = Inr details"
  unfolding parseDetails_def
proof (rule collect_map_total)
  fix path
  assume "path \<in> set (filter test_file_line_end (map js_trim (js_split [LF] message)))"
  then have "test_file_line_end path" by simp
  then have "match_file_line path \<noteq> None"
    by (simp add: match_file_line_None test_end_has_colon_digit)
  then obtain f l where "match_file_line path = Some (f, l)" by auto
  then show "\<exists>y. (case match_file_line path of
            None \<Rightarrow> Inl TypeError
          | Some (file, line) \<Rightarrow>
              Inr \<lparr>detail_file = file, detail_line = int (digits_value line) - 1\<rparr>) = Inr y"
    by simp
qed

lemma currentFile_file: "fst (currentFile details testCase) = tc_file testCase"
proof -
  let ?own = "filter (\<lambda>detail. tc_file testCase = Some (detail_file detail)) details"
  have "?own \<noteq> [] \<Longrightarrow> tc_file testCase = Some (detail_file (last ?own))"
  proof -
    assume "?own \<noteq> []"
    then have "last ?own \<in> set ?own" by (rule last_in_set)
    then show ?thesis by simp
  qed
  then show ?thesis by (auto simp: currentFile_def Let_def)
qed

text \<open>
  Claim C3. For a test case with a fault node whose message yields the details
  \<open>details\<close> (\<open>parseDetails\<close> fails on no message, by \<open>parseDetails_total\<close>),
  \<open>parseTestCase\<close> returns a test case with a fault. If some detail lies
  in the file that the attributes name, the last such detail gives the file and the
  line of the test case; otherwise the file and the line of the attributes stand. The
  details of the fault are the details whose file is not the file of the returned
  test case, in their order.
\<close>

theorem parseTestCase_location:
  assumes "node_attrs n = Some a"
    and "getFaultNode n = Inr (Some faultNode)"
    and "parseMessage faultNode = Inr message"
    and "parseDetails message = Inr details"
    and "fn_attrs faultNode = Some fa"
  shows "\<exists>tc fault. parseTestCase n = Inr tc \<and> tc_fault tc = Some fault \<and>
    (let own = filter (\<lambda>d. a ''file'' = Some (detail_file d)) details
     in (own \<noteq> [] \<longrightarrow>
           tc_file tc = Some (detail_file (last own)) \<and> tc_line tc = Some (detail_line (last own))) \<and>
        (own = [] \<longrightarrow> tc_file tc = a ''file'' \<and> tc_line tc = nominal_line a)) \<and>
    fault_details fault = filter (\<lambda>d. Some (detail_file d) \<noteq> tc_file tc) details"
proof -
  let ?nominal =
    "\<lparr>tc_name = or_null (a ''name''), tc_class = a ''class'',
      tc_classname = or_null (a ''classname''), tc_file = a ''file'',
      tc_line = nominal_line a, tc_time = Some (or_default (a ''time'') ''0''),
      tc_type = Some PASSED, tc_fault = None\<rparr>"
  let ?fault =
    "\<lparr>fault_message = Some (js_trim (strip_details message details)),
      fault_type = Some (or_default (fa ''type'') []),
      fault_details = filter (\<lambda>detail. Some (detail_file detail) \<noteq> a ''file'') details\<rparr>"
  let ?tc =
    "?nominal\<lparr>tc_file := fst (currentFile details ?nominal),
       tc_line := snd (currentFile details ?nominal),
       tc_type := Some (fn_type faultNode),
       tc_fault := Some ?fault\<rparr>"
  have r: "parseTestCase n = Inr ?tc"
    using assms by (simp add: parseTestCase_def nominal_line_def Let_def)
  have f: "tc_file ?tc = a ''file''"
    using currentFile_file [of details ?nominal] by simp
  have l: "tc_line ?tc = snd (currentFile details ?nominal)"
    by simp
  let ?own = "filter (\<lambda>d. a ''file'' = Some (detail_file d)) details"
  have own: "?own \<noteq> [] \<Longrightarrow>
      tc_file ?tc = Some (detail_file (last ?own)) \<and> tc_line ?tc = Some (detail_line (last ?own))"
    using f by (simp add: currentFile_def Let_def)
  have none: "?own = [] \<Longrightarrow> tc_file ?tc = a ''file'' \<and> tc_line ?tc = nominal_line a"
    using f by (simp add: currentFile_def Let_def)
  have d: "fault_details ?fault = filter (\<lambda>d. Some (detail_file d) \<noteq> tc_file ?tc) details"
    using f by simp
  have "tc_fault ?tc = Some ?fault" by simp
  with r own none d show ?thesis
    unfolding Let_def by blast
qed

theorem parseTestCase_location_witness:
  "\<exists>tc fault. parseTestCase two_token_node = Inr tc \<and> tc_fault tc = Some fault \<and>
     tc_file tc = Some ''b.php'' \<and> tc_line tc = Some 8 \<and>
     fault_details fault = [\<lparr>detail_file = ''a.php'', detail_line = 4\<rparr>]"
proof -
  let ?a = "[''name'' \<mapsto> ''testFailed'', ''file'' \<mapsto> ''b.php'', ''line'' \<mapsto> ''13'']"
  let ?fa = "[''type'' \<mapsto> ''AssertionError'']"
  let ?text = "''boom'' @ [LF] @ ''a.php:5'' @ [LF] @ ''b.php:9'' @ [LF]"
  let ?fn = "\<lparr>fn_type = FAILURE, fn_attrs = Some ?fa, fn_text = Some ?text\<rparr>"
  let ?ds = "[\<lparr>detail_file = ''a.php'', detail_line = 4\<rparr>, \<lparr>detail_file = ''b.php'', detail_line = 8\<rparr>]"
  have 1: "node_attrs two_token_node = Some ?a"
    by (simp add: two_token_node_def)
  have 2: "getFaultNode two_token_node = Inr (Some ?fn)"
    by (simp add: two_token_node_def getFaultNode_def nth_opt_def assign_type_def)
  have 3: "parseMessage ?fn = Inr ?text"
    by (simp add: parseMessage_def)
  have 4: "parseDetails ?text = Inr ?ds"
    by code_simp
  have 5: "fn_attrs ?fn = Some ?fa"
    by simp
  from parseTestCase_location [OF 1 2 3 4 5]
  obtain tc fault where h: "parseTestCase two_token_node = Inr tc" "tc_fault tc = Some fault"
      "tc_file tc = Some ''b.php''" "tc_line tc = Some 8"
      "fault_details fault = filter (\<lambda>d. Some (detail_file d) \<noteq> tc_file tc) ?ds"
    by (auto simp: Let_def)
  from h(5) h(3) have "fault_details fault = [\<lparr>detail_file = ''a.php'', detail_line = 4\<rparr>]"
    by simp
  with h show ?thesis by blast
qed

section \<open>TeamCityParser: groups\<close>

lemma group_step_closed:
  "group_step (rs, length rs) e =
    (rs @ [[e]], if is_finished e then length rs + 1 else length rs)"
  by (simp add: group_step_def is_finished_def Let_def)

lemma group_step_open:
  "group_step (rs @ [cur], length rs) e =
    (rs @ [cur @ [e]], if is_finished e then length rs + 1 else length rs)"
  by (simp add: group_step_def is_finished_def Let_def)

lemma foldl_group_step:
  "fst (foldl group_step (case cur of [] \<Rightarrow> rs | _ # _ \<Rightarrow> rs @ [cur], length rs) items) =
    rs @ spec_groups cur items"
proof (induction items arbitrary: rs cur)
  case Nil
  then show ?case by (cases cur) simp_all
next
  case (Cons e es)
  have step: "group_step (case cur of [] \<Rightarrow> rs | _ # _ \<Rightarrow> rs @ [cur], length rs) e =
      (rs @ [cur @ [e]], if is_finished e then length rs + 1 else length rs)"
    by (cases cur) (simp_all add: group_step_closed group_step_open del: append_assoc)
  show ?case
  proof (cases "is_finished e")
    case True
    have "fst (foldl group_step (rs @ [cur @ [e]], length (rs @ [cur @ [e]])) es) =
        (rs @ [cur @ [e]]) @ spec_groups [] es"
      using Cons.IH [of "rs @ [cur @ [e]]" "[]"] by simp
    then show ?thesis using True step by simp
  next
    case False
    have "fst (foldl group_step (rs @ [cur @ [e]], length rs) es) = rs @ spec_groups (cur @ [e]) es"
      using Cons.IH [of rs "cur @ [e]"] by (cases "cur @ [e]") simp_all
    then show ?thesis using False step by simp
  qed
qed

lemma groupByType_spec: "groupByType items = spec_groups [] items"
  using foldl_group_step [of "[]" "[]" items] by (simp add: groupByType_def)

lemma concat_spec_groups: "concat (spec_groups cur items) = cur @ items"
  by (induction items arbitrary: cur) (auto split: list.splits)

lemma spec_groups_shape:
  "\<forall>e \<in> set cur. \<not> is_finished e \<Longrightarrow> i < length (spec_groups cur items) \<Longrightarrow>
   spec_groups cur items ! i \<noteq> [] \<and>
   (\<forall>e \<in> set (butlast (spec_groups cur items ! i)). \<not> is_finished e) \<and>
   (Suc i < length (spec_groups cur items) \<longrightarrow> is_finished (last (spec_groups cur items ! i)))"
proof (induction items arbitrary: cur i)
  case Nil
  then show ?case by (cases cur) (auto dest: in_set_butlastD)
next
  case (Cons e es)
  show ?case
  proof (cases "is_finished e")
    case True
    show ?thesis
    proof (cases i)
      case 0
      then show ?thesis using True Cons.prems by (simp add: butlast_append)
    next
      case (Suc j)
      then have "j < length (spec_groups [] es)" using True Cons.prems by simp
      then show ?thesis using Cons.IH [of "[]" j] True Suc by simp
    qed
  next
    case False
    then have "\<forall>x \<in> set (cur @ [e]). \<not> is_finished x" using Cons.prems by auto
    then show ?thesis using Cons.IH [of "cur @ [e]" i] False Cons.prems by simp
  qed
qed

lemma splice_passed_two: "splice_passed [start, finish] = [start, testPassed_event, finish]"
  by (simp add: splice_passed_def)

lemma typeMap_testPassed: "typeMap (testPassed_event ''type'') = Some PASSED"
  by (simp add: typeMap_def testPassed_event_def)

lemma convertGroup_two:
  assumes "start ''locationHint'' = Some hint"
    and "lineNumber h (locationParts h hint ! 0)
           (''function '' @ (case nth_opt (locationParts h hint) 2 of None \<Rightarrow> ''undefined'' | Some n \<Rightarrow> n))
         = Inr line"
  shows "convertGroup h [start, finish] =
    Inr (Inr \<lparr>tc_name = nth_opt (locationParts h hint) 2,
               tc_class = nth_opt (locationParts h hint) 1,
               tc_classname = None,
               tc_file = Some (locationParts h hint ! 0),
               tc_line = Some line,
               tc_time = finish ''duration'',
               tc_type = Some PASSED,
               tc_fault = None\<rparr>)"
  using assms
  by (simp add: convertGroup_def splice_passed_two nth_opt_def typeMap_testPassed Let_def)

text \<open>
  Claim C5. \<open>groupByType\<close> is the grouping of the specification: it walks the events
  in order and closes the current group right after each \<open>testFinished\<close>. Nothing is
  lost or reordered, no group is empty, only the last event of a group can be a
  \<open>testFinished\<close>, and every group but the last ends in one. A group of two events
  gets \<open>testPassed\<close> as its middle event, so the events \<open>[start, finish]\<close> of one test
  (whose start carries a location hint and whose line lookup resolves) give one test
  case, of type Passed and without a fault.
\<close>

theorem groupByType_windows:
  "groupByType items = spec_groups [] items \<and>
   concat (groupByType items) = items \<and>
   (\<forall>i < length (groupByType items).
      groupByType items ! i \<noteq> [] \<and>
      (\<forall>e \<in> set (butlast (groupByType items ! i)). \<not> is_finished e) \<and>
      (Suc i < length (groupByType items) \<longrightarrow> is_finished (last (groupByType items ! i)))) \<and>
   (length g = 2 \<longrightarrow> splice_passed g = [g ! 0, testPassed_event, g ! 1]) \<and>
   (\<not> is_finished start \<and> is_finished finish \<and> start ''locationHint'' = Some hint \<and>
    lineNumber h (locationParts h hint ! 0)
      (''function '' @ (case nth_opt (locationParts h hint) 2 of None \<Rightarrow> ''undefined'' | Some n \<Rightarrow> n))
      = Inr line \<longrightarrow>
    (\<exists>tc. convertToTestCase h (groupByType [start, finish]) = Inr [tc] \<and>
          tc_type tc = Some PASSED \<and> tc_fault tc = None \<and> tc_line tc = Some line))"
proof -
  have shape: "\<forall>i < length (groupByType items).
      groupByType items ! i \<noteq> [] \<and>
      (\<forall>e \<in> set (butlast (groupByType items ! i)). \<not> is_finished e) \<and>
      (Suc i < length (groupByType items) \<longrightarrow> is_finished (last (groupByType items ! i)))"
    using spec_groups_shape [of "[]" _ items] by (simp add: groupByType_spec)
  have splice: "length g = 2 \<Longrightarrow> splice_passed g = [g ! 0, testPassed_event, g ! 1]"
  proof -
    assume "length g = 2"
    then obtain a b where "g = [a, b]"
      by (cases g; cases "tl g") auto
    then show ?thesis by (simp add: splice_passed_two)
  qed
  have passed: "\<exists>tc. convertToTestCase h (groupByType [start, finish]) = Inr [tc] \<and>
          tc_type tc = Some PASSED \<and> tc_fault tc = None \<and> tc_line tc = Some line"
    if "\<not> is_finished start" "is_finished finish" "start ''locationHint'' = Some hint"
       "lineNumber h (locationParts h hint ! 0)
          (''function '' @ (case nth_opt (locationParts h hint) 2 of None \<Rightarrow> ''undefined'' | Some n \<Rightarrow> n))
          = Inr line"
  proof -
    have "groupByType [start, finish] = [[start, finish]]"
      using that(1,2) by (simp add: groupByType_spec)
    then show ?thesis
      using convertGroup_two [of start hint h line finish] that(3,4) by (simp add: convertToTestCase_def)
  qed
  show ?thesis
    using shape splice passed
    by (simp add: groupByType_spec concat_spec_groups)
qed

theorem groupByType_windows_witness:
  "groupByType [started_event, finished_event, started_event, finished_event, started_event] =
     [[started_event, finished_event], [started_event, finished_event], [started_event]] \<and>
   splice_passed [started_event, finished_event] = [started_event, testPassed_event, finished_event] \<and>
   (\<exists>tc. convertToTestCase example_host (groupByType [started_event, finished_event]) = Inr [tc] \<and>
         tc_type tc = Some PASSED \<and> tc_fault tc = None \<and> tc_line tc = Some 13)"
proof -
  let ?items = "[started_event, finished_event, started_event, finished_event, started_event]"
  have s: "\<not> is_finished started_event" "is_finished finished_event"
      "started_event ''locationHint'' = Some ''php_qn://t.php::Cls::testA''"
    by (simp_all add: is_finished_def started_event_def finished_event_def)
  have l: "lineNumber example_host (locationParts example_host ''php_qn://t.php::Cls::testA'' ! 0)
      (''function '' @ (case nth_opt (locationParts example_host ''php_qn://t.php::Cls::testA'') 2 of
         None \<Rightarrow> ''undefined'' | Some n \<Rightarrow> n)) = Inr 13"
    by (simp add: example_host_def)
  note t = groupByType_windows [of ?items "[started_event, finished_event]" started_event
      finished_event "''php_qn://t.php::Cls::testA''" example_host 13]
  have g: "spec_groups [] ?items =
      [[started_event, finished_event], [started_event, finished_event], [started_event]]"
    using s by simp
  from t have "groupByType ?items = spec_groups [] ?items" by blast
  with g have 1: "groupByType ?items =
      [[started_event, finished_event], [started_event, finished_event], [started_event]]"
    by simp
  from t have 2: "splice_passed [started_event, finished_event] =
      [started_event, testPassed_event, finished_event]"
    by simp
  from t s l have 3: "\<exists>tc. convertToTestCase example_host (groupByType [started_event, finished_event]) = Inr [tc] \<and>
         tc_type tc = Some PASSED \<and> tc_fault tc = None \<and> tc_line tc = Some 13"
    by blast
  from 1 2 3 show ?thesis by blast
qed

section \<open>TeamCityParser: a group that did not pass\<close>

lemma runs_plain: "\<not> list_ex is_line_terminator s \<Longrightarrow> runs s = [s]"
  by (induction s) simp_all

lemma digits_no_colon_digit: "list_all is_digit ds \<Longrightarrow> \<not> has_colon_digit ds"
proof (induction ds rule: has_colon_digit.induct)
  case (1 a b cs)
  then have "a \<noteq> CHR '':''" by (auto simp: is_digit_def)
  with 1 show ?case by simp
qed simp_all

lemma match_in_run_exact:
  "ds \<noteq> [] \<Longrightarrow> list_all is_digit ds \<Longrightarrow> match_in_run (f @ CHR '':'' # ds) = Some (f, ds)"
proof (induction f)
  case Nil
  have "match_in_run ds = None"
    using Nil digits_no_colon_digit by (simp add: match_in_run_None)
  moreover have "takeWhile is_digit ds = ds"
    using Nil by (simp add: list_all_iff)
  moreover have "is_digit (hd ds)"
    using Nil by (cases ds) simp_all
  ultimately show ?case using Nil by simp
next
  case (Cons c f)
  then show ?case by simp
qed

lemma match_file_line_exact:
  assumes "well_formed_loc loc"
  shows "match_file_line (segment_of loc) = Some loc"
proof -
  have d: "\<not> list_ex is_line_terminator (snd loc)"
    using assms is_digit_not_terminator by (auto simp: well_formed_loc_def list_all_iff list_ex_iff)
  have "\<not> is_line_terminator (CHR '':'')" by (simp add: is_line_terminator_def)
  with d assms have "runs (segment_of loc) = [segment_of loc]"
    by (intro runs_plain) (simp add: segment_of_def well_formed_loc_def)
  then show ?thesis
    using assms match_in_run_exact [of "snd loc" "fst loc"]
    by (simp add: match_file_line_def segment_of_def well_formed_loc_def)
qed

lemma convertToDetail_segments:
  "convertToDetail h content =
    collect (map (\<lambda>path.
        case match_file_line path of
          None \<Rightarrow> Inl TypeError
        | Some (file, line) \<Rightarrow>
            Inr \<lparr>detail_file = renamePath h file, detail_line = int (digits_value line)\<rparr>)
      (segments content))"
  by (simp add: convertToDetail_def segments_def)

lemma convertToDetail_locs:
  assumes "segments content = map segment_of locs"
    and "list_all well_formed_loc locs"
  shows "convertToDetail h content = Inr (map (detail_of h) locs)"
proof -
  have "map (\<lambda>path.
        case match_file_line path of
          None \<Rightarrow> Inl TypeError
        | Some (file, line) \<Rightarrow>
            Inr \<lparr>detail_file = renamePath h file, detail_line = int (digits_value line)\<rparr>)
      (map segment_of locs) = map Inr (map (detail_of h) locs)"
    using assms(2)
    by (induction locs) (simp_all add: match_file_line_exact detail_of_def split: prod.splits)
  then show ?thesis
    unfolding convertToDetail_segments assms(1) by (simp only: collect_map_Inr)
qed

lemma convertToDetail_Inl:
  assumes "seg \<in> set (segments content)" and "\<not> has_colon_digit seg"
  shows "\<exists>e. convertToDetail h content = Inl e"
proof -
  have "match_file_line seg = None"
    using assms(2) by (simp add: match_file_line_None)
  then show ?thesis
    unfolding convertToDetail_segments collect_Inl using assms(1) by force
qed

lemma splice_passed_longer: "splice_passed (start # err # finish # rest) = start # err # finish # rest"
  by (simp add: splice_passed_def)

lemma convertGroup_failed:
  assumes "start ''locationHint'' = Some hint"
    and "typeMap (err ''type'') \<noteq> Some PASSED"
    and "err ''details'' = Some content"
    and "convertToDetail h content = Inr details"
  shows "\<exists>tc. convertGroup h (start # err # finish # rest) = Inr (Inr tc) \<and>
    tc_file tc = (case details of [] \<Rightarrow> Some (locationParts h hint ! 0) | d # _ \<Rightarrow> Some (detail_file d)) \<and>
    tc_line tc = (case details of [] \<Rightarrow> Some 0 | d # _ \<Rightarrow> Some (detail_line d)) \<and>
    tc_type tc = typeMap (err ''type'') \<and>
    tc_fault tc = Some \<lparr>fault_message = err ''message'', fault_type = None,
      fault_details = filter (\<lambda>d. detail_file d \<noteq> locationParts h hint ! 0) details\<rparr>"
  using assms
  by (cases details) (simp_all add: convertGroup_def splice_passed_longer nth_opt_def Let_def)

text \<open>
  Claim C1, as the code has it. For a group \<open>start, err, finish\<close> that did not pass,
  the locations are read from the field \<open>details\<close> of the middle event (not from
  \<open>message\<close>). When its segments are \<open>file:digits\<close>, each gives a detail with the
  file path-rewritten and the line as the digits say, with nothing subtracted, and the
  first detail gives the file and the line of the test case.
\<close>

theorem convertGroup_details:
  assumes "start ''locationHint'' = Some hint"
    and "typeMap (err ''type'') \<noteq> Some PASSED"
    and "err ''details'' = Some content"
    and "segments content = map segment_of locs"
    and "list_all well_formed_loc locs"
  shows "convertToDetail h content = Inr (map (detail_of h) locs) \<and>
    (\<exists>tc. convertGroup h (start # err # finish # rest) = Inr (Inr tc) \<and>
       (case locs of
          [] \<Rightarrow> tc_file tc = Some (locationParts h hint ! 0) \<and> tc_line tc = Some 0
        | loc # _ \<Rightarrow>
           tc_file tc = Some (renamePath h (fst loc)) \<and>
           tc_line tc = Some (int (digits_value (snd loc)))))"
proof -
  have d: "convertToDetail h content = Inr (map (detail_of h) locs)"
    using assms(4,5) by (rule convertToDetail_locs)
  from convertGroup_failed [of start hint err content h "map (detail_of h) locs" finish rest]
    assms(1-3) d
  obtain tc where "convertGroup h (start # err # finish # rest) = Inr (Inr tc)"
    and "tc_file tc = (case map (detail_of h) locs of
           [] \<Rightarrow> Some (locationParts h hint ! 0) | d # _ \<Rightarrow> Some (detail_file d))"
    and "tc_line tc = (case map (detail_of h) locs of [] \<Rightarrow> Some 0 | d # _ \<Rightarrow> Some (detail_line d))"
    by blast
  then have "\<exists>tc. convertGroup h (start # err # finish # rest) = Inr (Inr tc) \<and>
       (case locs of
          [] \<Rightarrow> tc_file tc = Some (locationParts h hint ! 0) \<and> tc_line tc = Some 0
        | loc # _ \<Rightarrow>
           tc_file tc = Some (renamePath h (fst loc)) \<and>
           tc_line tc = Some (int (digits_value (snd loc))))"
    by (cases locs) (auto simp: detail_of_def)
  with d show ?thesis by simp
qed

theorem convertGroup_details_witness:
  "convertToDetail example_host ''a.php:5|nb.php:9'' =
     Inr [\<lparr>detail_file = ''a.php'', detail_line = 5\<rparr>, \<lparr>detail_file = ''b.php'', detail_line = 9\<rparr>] \<and>
   (\<exists>tc. convertGroup example_host [started_event, failed_details_event, finished_event] = Inr (Inr tc) \<and>
      tc_file tc = Some ''a.php'' \<and> tc_line tc = Some 5)"
proof -
  let ?locs = "[(''a.php'', ''5''), (''b.php'', ''9'')]"
  have 1: "started_event ''locationHint'' = Some ''php_qn://t.php::Cls::testA''"
    by (simp add: started_event_def)
  have 2: "typeMap (failed_details_event ''type'') \<noteq> Some PASSED"
    by (simp add: failed_details_event_def typeMap_def)
  have 3: "failed_details_event ''details'' = Some ''a.php:5|nb.php:9''"
    by (simp add: failed_details_event_def)
  have 4: "segments ''a.php:5|nb.php:9'' = map segment_of ?locs"
    by code_simp
  have 5: "list_all well_formed_loc ?locs"
    by code_simp
  have 6: "map (detail_of example_host) ?locs =
      [\<lparr>detail_file = ''a.php'', detail_line = 5\<rparr>, \<lparr>detail_file = ''b.php'', detail_line = 9\<rparr>]"
    by (simp add: detail_of_def renamePath_def example_host_def digits_value_def)
  have 7: "renamePath example_host ''a.php'' = ''a.php''" "int (digits_value ''5'') = 5"
    by (simp_all add: renamePath_def example_host_def digits_value_def)
  from convertGroup_details [of started_event "''php_qn://t.php::Cls::testA''"
      failed_details_event "''a.php:5|nb.php:9''" ?locs example_host finished_event "[]"]
    1 2 3 4 5 6 7
  show ?thesis by simp
qed

text \<open>
  Claim C1 as stated fails on its own example. With the locations in \<open>message\<close> the
  middle event has no \<open>details\<close>, and the call fails; with the same text in
  \<open>details\<close> the line of the test case is 5, not 4.
\<close>

theorem convertGroup_details_counterexample:
  "observe (convertToTestCase example_host
      (groupByType [started_event, failed_message_event, finished_event])) = Inl TypeError \<and>
   observe (convertToTestCase example_host
      (groupByType [started_event, failed_details_event, finished_event])) =
     Inr [(Some ''a.php'', Some 5, Some [(''a.php'', 5), (''b.php'', 9)])]"
  by code_simp

text \<open>
  Claim C2, as the code has it. The details of the fault are the details whose file is
  not the file of the location hint of the start event, in their order; the file of
  the first detail, which the test case takes over, has no part in it. The message of
  the fault is the field \<open>message\<close> as it stands.
\<close>

theorem convertGroup_fault_details:
  assumes "start ''locationHint'' = Some hint"
    and "typeMap (err ''type'') \<noteq> Some PASSED"
    and "err ''details'' = Some content"
    and "convertToDetail h content = Inr details"
  shows "\<exists>tc fault. convertGroup h (start # err # finish # rest) = Inr (Inr tc) \<and>
    tc_fault tc = Some fault \<and>
    fault_details fault = filter (\<lambda>d. detail_file d \<noteq> locationParts h hint ! 0) details \<and>
    fault_message fault = err ''message'' \<and>
    tc_file tc = (case details of [] \<Rightarrow> Some (locationParts h hint ! 0) | d # _ \<Rightarrow> Some (detail_file d))"
proof -
  from convertGroup_failed [of start hint err content h details finish rest] assms
  obtain tc where tc: "convertGroup h (start # err # finish # rest) = Inr (Inr tc)"
    "tc_file tc = (case details of [] \<Rightarrow> Some (locationParts h hint ! 0) | d # _ \<Rightarrow> Some (detail_file d))"
    "tc_fault tc = Some \<lparr>fault_message = err ''message'', fault_type = None,
      fault_details = filter (\<lambda>d. detail_file d \<noteq> locationParts h hint ! 0) details\<rparr>"
    by blast
  then show ?thesis by simp
qed

theorem convertGroup_fault_details_witness:
  "\<exists>tc fault. convertGroup example_host [started_event, failed_three_event, finished_event] = Inr (Inr tc) \<and>
     tc_fault tc = Some fault \<and>
     fault_details fault =
       [\<lparr>detail_file = ''a.php'', detail_line = 5\<rparr>, \<lparr>detail_file = ''b.php'', detail_line = 3\<rparr>] \<and>
     fault_message fault = Some ''boom'' \<and>
     tc_file tc = Some ''a.php''"
proof -
  let ?content = "'' a.php:5|n t.php:9|n b.php:3|n ''"
  let ?details = "[\<lparr>detail_file = ''a.php'', detail_line = 5\<rparr>,
     \<lparr>detail_file = ''t.php'', detail_line = 9\<rparr>, \<lparr>detail_file = ''b.php'', detail_line = 3\<rparr>]"
  have 1: "started_event ''locationHint'' = Some ''php_qn://t.php::Cls::testA''"
    by (simp add: started_event_def)
  have 2: "typeMap (failed_three_event ''type'') \<noteq> Some PASSED"
    by (simp add: failed_three_event_def typeMap_def)
  have 3: "failed_three_event ''details'' = Some ?content"
    by (simp add: failed_three_event_def)
  have 4: "convertToDetail example_host ?content = Inr ?details"
    by code_simp
  have 5: "locationParts example_host ''php_qn://t.php::Cls::testA'' ! 0 = ''t.php''"
    by code_simp
  have 6: "failed_three_event ''message'' = Some ''boom''"
    by (simp add: failed_three_event_def)
  from convertGroup_fault_details [of started_event "''php_qn://t.php::Cls::testA''"
      failed_three_event ?content example_host ?details finished_event "[]"]
    1 2 3 4 5 6
  show ?thesis by simp
qed

text \<open>
  Claim C2 as stated fails: the test case takes the file \<open>a.php\<close> of the first
  detail, and the details of the fault still hold that detail; the one they leave out
  is the detail in \<open>t.php\<close>, the file of the location hint.
\<close>

theorem convertGroup_fault_details_counterexample:
  "observe (convertToTestCase example_host
      (groupByType [started_event, failed_three_event, finished_event])) =
     Inr [(Some ''a.php'', Some 5, Some [(''a.php'', 5), (''b.php'', 3)])]"
  by code_simp

section \<open>TeamCityParser: malformed groups\<close>

lemma convertGroup_malformed:
  assumes "malformed_group g"
  shows "\<exists>e. convertGroup h g = Inl e"
proof (cases "splice_passed g")
  case Nil
  then show ?thesis by (simp add: convertGroup_def nth_opt_def)
next
  case c1: (Cons start r1)
  show ?thesis
  proof (cases r1)
    case Nil
    then show ?thesis using c1
      by (simp add: convertGroup_def nth_opt_def Let_def split: option.splits)
  next
    case c2: (Cons err r2)
    show ?thesis
    proof (cases r2)
      case Nil
      then show ?thesis using c1 c2
        by (simp add: convertGroup_def nth_opt_def Let_def split: option.splits)
    next
      case c3: (Cons finish rest)
      have g: "splice_passed g = start # err # finish # rest"
        using c1 c2 c3 by simp
      show ?thesis
      proof (cases "start ''locationHint''")
        case None
        then show ?thesis using g by (simp add: convertGroup_def nth_opt_def)
      next
        case (Some hint)
        with assms g have np: "typeMap (err ''type'') \<noteq> Some PASSED"
          and d: "case err ''details'' of
                    None \<Rightarrow> True
                  | Some content \<Rightarrow> list_ex (\<lambda>seg. \<not> has_colon_digit seg) (segments content)"
          by (simp_all add: malformed_group_def)
        show ?thesis
        proof (cases "err ''details''")
          case None
          then show ?thesis using g Some np
            by (simp add: convertGroup_def nth_opt_def Let_def)
        next
          case content: (Some content)
          with d obtain seg where "seg \<in> set (segments content)" "\<not> has_colon_digit seg"
            by (auto simp: list_ex_iff)
          then obtain e where "convertToDetail h content = Inl e"
            using convertToDetail_Inl by blast
          then show ?thesis using g Some np content
            by (simp add: convertGroup_def nth_opt_def Let_def)
        qed
      qed
    qed
  qed
qed

lemma convertToTestCase_malformed:
  assumes "g \<in> set groups" and "malformed_group g"
  shows "\<exists>e. convertToTestCase h groups = Inl e"
proof -
  obtain e where "convertGroup h g = Inl e"
    using assms(2) convertGroup_malformed by blast
  then have "\<exists>r \<in> set (map (convertGroup h) groups). \<exists>e. r = Inl e"
    using assms(1) by force
  then obtain e' where "collect (map (convertGroup h) groups) = Inl e'"
    using collect_Inl [of "map (convertGroup h) groups"] by blast
  then show ?thesis by (simp add: convertToTestCase_def)
qed

text \<open>
  Claim C7, as the code has it. When some group of the stream is malformed (its start
  event has no location hint, or it did not pass and its \<open>details\<close> are missing or hold
  a segment without a colon followed by a digit, or it has a single event), the whole
  call fails and returns no test case. The number of parts of the location hint is
  not looked at.
\<close>

theorem parse_fails_on_malformed_group:
  assumes "convertToArguments h content = Inr items"
    and "g \<in> set (groupByType items)"
    and "malformed_group g"
  shows "\<exists>e. TeamCityParser_parse h content = Inl e"
  using assms convertToTestCase_malformed [of g "groupByType items" h]
  by (simp add: TeamCityParser_parse_def TeamCityParser_parseString_def)

theorem parse_fails_on_malformed_group_witness:
  "(\<exists>items g. convertToArguments example_host malformed_details_text = Inr items \<and>
      g \<in> set (groupByType items) \<and> malformed_group g) \<and>
   (\<exists>e. TeamCityParser_parse example_host malformed_details_text = Inl e)"
proof -
  have "case convertToArguments example_host malformed_details_text of
          Inl e \<Rightarrow> False
        | Inr items \<Rightarrow>
            map (\<lambda>e. (e ''type'', e ''locationHint'', e ''details'')) items =
              [(Some ''testStarted'', Some ''php_qn://t.php::Cls::testA'', None),
               (Some ''testFailed'', None, Some ''oops''),
               (Some ''testFinished'', None, None)]"
    by code_simp
  then obtain items where items: "convertToArguments example_host malformed_details_text = Inr items"
    and m: "map (\<lambda>e. (e ''type'', e ''locationHint'', e ''details'')) items =
              [(Some ''testStarted'', Some ''php_qn://t.php::Cls::testA'', None),
               (Some ''testFailed'', None, Some ''oops''),
               (Some ''testFinished'', None, None)]"
    by (auto split: sum.splits)
  from m obtain a b c where abc: "items = [a, b, c]"
    and a: "a ''type'' = Some ''testStarted''" "a ''locationHint'' = Some ''php_qn://t.php::Cls::testA''"
    and b: "b ''type'' = Some ''testFailed''" "b ''details'' = Some ''oops''"
    and c: "c ''type'' = Some ''testFinished''"
    by auto
  have "groupByType items = [[a, b, c]]"
    using abc a b c by (simp add: groupByType_spec is_finished_def)
  then have g: "[a, b, c] \<in> set (groupByType items)" by simp
  have s: "list_ex (\<lambda>seg. \<not> has_colon_digit seg) (segments ''oops'')"
    by code_simp
  have bad: "malformed_group [a, b, c]"
    using a b s by (simp add: malformed_group_def splice_passed_def typeMap_def)
  from parse_fails_on_malformed_group [OF items g bad] items g bad
  show ?thesis by blast
qed

text \<open>
  Claim C7 as stated fails for the location hint: the hint \<open>php_qn://t.php::Cls\<close> has
  two parts, and the call returns a test case, with its class and without a name.
\<close>

theorem parse_fails_on_malformed_group_counterexample:
  "length (locationParts example_host ''php_qn://t.php::Cls'') = 2 \<and>
   observe (TeamCityParser_parse example_host two_part_hint_text) =
     Inr [(Some ''a.php'', Some 5, Some [(''a.php'', 5)])] \<and>
   names (TeamCityParser_parse example_host two_part_hint_text) = Inr [(Some ''Cls'', None)]"
  by code_simp

section \<open>TeamCityParser: the file reader\<close>







section \<open>The fault and the type of a test case\<close>

lemma map_eq_Inr_D:
  assumes "map f xs = map Inr ys" and "y \<in> set ys"
  shows "\<exists>x \<in> set xs. f x = Inr y"
proof -
  have "Inr y \<in> set (map Inr ys)" using assms(2) by simp
  then have "Inr y \<in> set (map f xs)" using assms(1) by simp
  then show ?thesis by auto
qed

lemma collect_member:
  assumes "collect (map f xs) = Inr ys" and "y \<in> set ys"
  shows "\<exists>x \<in> set xs. f x = Inr y"
proof -
  from assms(1) have "map f xs = map Inr ys" by (rule collect_Inr_D)
  then show ?thesis using assms(2) by (rule map_eq_Inr_D)
qed

lemma parseErrorType_not_passed: "parseErrorType e = Inr t \<Longrightarrow> t \<noteq> PASSED"
  unfolding parseErrorType_def Let_def
  by (cases e) (auto split: option.splits if_splits)

lemma getFaultNode_type_not_passed:
  assumes "getFaultNode n = Inr (Some faultNode)"
  shows "fn_type faultNode \<noteq> PASSED"
proof (cases "node_error n")
  case (Some es)
  with assms obtain t where "parseErrorType (nth_opt es 0) = Inr t"
    and "faultNode = assign_type t (nth_opt es 0)"
    by (auto simp: getFaultNode_def split: sum.splits)
  then show ?thesis
    using parseErrorType_not_passed [of "nth_opt es 0" t]
    by (simp add: assign_type_def split: option.splits)
next
  case None
  show ?thesis
  proof (cases "node_warning n")
    case (Some ws)
    with assms None show ?thesis
      by (auto simp: getFaultNode_def assign_type_def split: option.splits)
  next
    case nw: None
    show ?thesis
    proof (cases "node_failure n")
      case (Some fs)
      with assms None nw show ?thesis
        by (auto simp: getFaultNode_def assign_type_def split: option.splits)
    next
      case nf: None
      with assms None nw show ?thesis
        by (auto simp: getFaultNode_def split: if_splits)
    qed
  qed
qed

lemma parseTestCase_fault:
  assumes "parseTestCase n = Inr tc"
  shows "fault_matches_type tc"
proof (cases "getFaultNode n")
  case (Inl e)
  then show ?thesis using assms
    by (simp add: parseTestCase_def Let_def split: option.splits)
next
  case (Inr f)
  show ?thesis
  proof (cases f)
    case None
    then show ?thesis using assms Inr
      by (auto simp: parseTestCase_def fault_matches_type_def Let_def split: option.splits)
  next
    case (Some faultNode)
    then have "fn_type faultNode \<noteq> PASSED"
      using Inr getFaultNode_type_not_passed by blast
    then show ?thesis using assms Inr Some
      by (auto simp: parseTestCase_def fault_matches_type_def Let_def
          split: option.splits sum.splits)
  qed
qed

lemma parseTestSuite_fault:
  "parseTestSuite s = Inr tcs \<Longrightarrow> tc \<in> set tcs \<Longrightarrow> fault_matches_type tc"
proof (induction s arbitrary: tcs rule: parseTestSuite.induct)
  case (1 suites cases)
  from "1.prems"(1) obtain results where r: "collect (map parseTestSuite suites) = Inr results"
    and tcs: "tcs = concat results"
    by (auto split: sum.splits)
  from tcs "1.prems"(2) obtain res where res: "res \<in> set results" "tc \<in> set res"
    by auto
  from collect_member [OF r res(1)] obtain x where "x \<in> set suites" "parseTestSuite x = Inr res"
    by blast
  then show ?case using "1.IH" res(2) by blast
next
  case (2 cases)
  then obtain n where "n \<in> set cases" "parseTestCase n = Inr tc"
    using collect_member [of parseTestCase cases tcs tc] by auto
  then show ?case using parseTestCase_fault by blast
next
  case 3
  then show ?case by simp
qed

lemma JUnitParser_parseString_fault:
  "JUnitParser_parseString h content = Inr tcs \<Longrightarrow> tc \<in> set tcs \<Longrightarrow> fault_matches_type tc"
  using parseTestSuite_fault
  by (auto simp: JUnitParser_parseString_def split: sum.splits option.splits)

lemma convertGroup_passed:
  assumes "start ''locationHint'' = Some hint"
    and "typeMap (err ''type'') = Some PASSED"
    and "convertGroup h (start # err # finish # rest) = Inr (Inr tc)"
  shows "tc_fault tc = None \<and> tc_type tc = Some PASSED"
proof -
  let ?r = "lineNumber h (locationParts h hint ! 0)
      (''function '' @ (case nth_opt (locationParts h hint) 2 of None \<Rightarrow> ''undefined'' | Some n \<Rightarrow> n))"
  have "convertGroup h (start # err # finish # rest) =
      Inr (case ?r of
             Inl e \<Rightarrow> Inl e
           | Inr line \<Rightarrow>
               Inr \<lparr>tc_name = nth_opt (locationParts h hint) 2,
                     tc_class = nth_opt (locationParts h hint) 1,
                     tc_classname = None,
                     tc_file = Some (locationParts h hint ! 0),
                     tc_line = Some line,
                     tc_time = finish ''duration'',
                     tc_type = Some PASSED,
                     tc_fault = None\<rparr>)"
    using assms(1,2)
    by (cases ?r) (simp_all add: convertGroup_def splice_passed_longer nth_opt_def Let_def)
  with assms(3) show ?thesis
    by (cases ?r) auto
qed

lemma convertGroup_fault:
  assumes "convertGroup h g = Inr (Inr tc)"
  shows "fault_matches_type tc"
proof -
  have ok: "\<not> malformed_group g"
    using assms convertGroup_malformed [of g h] by auto
  then obtain start err finish rest where g: "splice_passed g = start # err # finish # rest"
    by (auto simp: malformed_group_def split: list.splits)
  from ok g obtain hint where hint: "start ''locationHint'' = Some hint"
    by (auto simp: malformed_group_def)
  have same: "convertGroup h g = convertGroup h (start # err # finish # rest)"
    using g by (simp add: convertGroup_def splice_passed_longer)
  show ?thesis
  proof (cases "typeMap (err ''type'') = Some PASSED")
    case True
    then show ?thesis
      using convertGroup_passed [of start hint err h finish rest tc] hint assms same
      by (simp add: fault_matches_type_def)
  next
    case False
    with ok g obtain content where content: "err ''details'' = Some content"
      by (auto simp: malformed_group_def split: option.splits)
    have "\<not> list_ex (\<lambda>seg. \<not> has_colon_digit seg) (segments content)"
      using ok g False content by (simp add: malformed_group_def)
    then have "\<forall>seg \<in> set (segments content). match_file_line seg \<noteq> None"
      by (simp add: list_ex_iff match_file_line_None)
    then obtain details where d: "convertToDetail h content = Inr details"
      unfolding convertToDetail_segments
      using collect_map_total [of "segments content"
          "\<lambda>path. case match_file_line path of
                     None \<Rightarrow> Inl TypeError
                   | Some (file, line) \<Rightarrow>
                       Inr \<lparr>detail_file = renamePath h file, detail_line = int (digits_value line)\<rparr>"]
      by fastforce
    from convertGroup_failed [of start hint err content h details finish rest] hint False content d
    obtain tc' where "convertGroup h (start # err # finish # rest) = Inr (Inr tc')"
      and "tc_type tc' = typeMap (err ''type'')" and "tc_fault tc' \<noteq> None"
      by auto
    then show ?thesis using assms same False
      by (simp add: fault_matches_type_def)
  qed
qed

lemma convertToTestCase_fault:
  assumes "convertToTestCase h groups = Inr tcs" and "tc \<in> set tcs"
  shows "fault_matches_type tc"
proof -
  from assms(1) obtain promises where p: "collect (map (convertGroup h) groups) = Inr promises"
    and c: "collect promises = Inr tcs"
    by (auto simp: convertToTestCase_def split: sum.splits)
  from c have "promises = map Inr tcs" by (rule collect_Inr_D)
  then have "Inr tc \<in> set promises" using assms(2) by simp
  with p obtain g where "convertGroup h g = Inr (Inr tc)"
    using collect_member [of "convertGroup h" groups promises "Inr tc"] by blast
  then show ?thesis by (rule convertGroup_fault)
qed

lemma TeamCityParser_parseString_fault:
  "TeamCityParser_parseString h content = Inr tcs \<Longrightarrow> tc \<in> set tcs \<Longrightarrow> fault_matches_type tc"
  using convertToTestCase_fault
  by (auto simp: TeamCityParser_parseString_def split: sum.splits)

text \<open>
  Claim C8. For every test case that an entry point of either parser returns, exactly
  one of the two holds: it has no fault and its type is Passed, or it has a fault and
  its type is not Passed.
\<close>

theorem returned_fault_matches_type:
  assumes "JUnitParser_parse h t = Inr tcs \<or> JUnitParser_parseString h t = Inr tcs \<or>
           TeamCityParser_parse h t = Inr tcs \<or> TeamCityParser_parseString h t = Inr tcs"
    and "tc \<in> set tcs"
  shows "((tc_fault tc = None \<and> tc_type tc = Some PASSED) \<or>
          (tc_fault tc \<noteq> None \<and> tc_type tc \<noteq> Some PASSED)) \<and>
         \<not> ((tc_fault tc = None \<and> tc_type tc = Some PASSED) \<and>
            (tc_fault tc \<noteq> None \<and> tc_type tc \<noteq> Some PASSED))"
proof -
  have "fault_matches_type tc" if "JUnitParser_parse h t = Inr tcs"
  proof -
    from that obtain content where "JUnitParser_parseString h content = Inr tcs"
      by (auto simp: JUnitParser_parse_def parseFile_def split: sum.splits)
    then show ?thesis using assms(2) by (rule JUnitParser_parseString_fault)
  qed
  moreover have "fault_matches_type tc" if "JUnitParser_parseString h t = Inr tcs"
    using that assms(2) by (rule JUnitParser_parseString_fault)
  moreover have "fault_matches_type tc" if "TeamCityParser_parse h t = Inr tcs"
    using that assms(2) TeamCityParser_parseString_fault [of h t tcs tc]
    by (simp add: TeamCityParser_parse_def)
  moreover have "fault_matches_type tc" if "TeamCityParser_parseString h t = Inr tcs"
    using that assms(2) by (rule TeamCityParser_parseString_fault)
  ultimately have "fault_matches_type tc" using assms(1) by blast
  then show ?thesis by (auto simp: fault_matches_type_def)
qed

theorem returned_fault_matches_type_witness:
  "(\<exists>tcs tc. JUnitParser_parse file_host ''junit.xml'' = Inr tcs \<and> tc \<in> set tcs \<and>
      tc_type tc = Some SKIPPED \<and> tc_fault tc \<noteq> None) \<and>
   (\<exists>tcs tc. TeamCityParser_parse example_host passed_text = Inr tcs \<and> tc \<in> set tcs \<and>
      tc_type tc = Some PASSED \<and> tc_fault tc = None)"
proof -
  have "case JUnitParser_parse file_host ''junit.xml'' of
          Inl e \<Rightarrow> False
        | Inr tcs \<Rightarrow> map tc_type tcs = [Some SKIPPED]"
    by code_simp
  then obtain tcs where j: "JUnitParser_parse file_host ''junit.xml'' = Inr tcs"
    and "map tc_type tcs = [Some SKIPPED]"
    by (auto split: sum.splits)
  then obtain tc where tc: "tc \<in> set tcs" "tc_type tc = Some SKIPPED"
    by auto
  from returned_fault_matches_type [of file_host "''junit.xml''" tcs tc] j tc
  have 1: "tc_fault tc \<noteq> None" by simp
  have "case TeamCityParser_parse example_host passed_text of
          Inl e \<Rightarrow> False
        | Inr tcs \<Rightarrow> map tc_type tcs = [Some PASSED]"
    by code_simp
  then obtain tcs' where p: "TeamCityParser_parse example_host passed_text = Inr tcs'"
    and "map tc_type tcs' = [Some PASSED]"
    by (auto split: sum.splits)
  then obtain tc' where tc': "tc' \<in> set tcs'" "tc_type tc' = Some PASSED"
    by auto
  from returned_fault_matches_type [of example_host passed_text tcs' tc'] p tc'
  have 2: "tc_fault tc' = None" by simp
  from j tc 1 p tc' 2 show ?thesis by blast
qed

section \<open>Numbers in decimal\<close>

text \<open>
  On a text of digits \<open>parseInt\<close> gives the decimal value, which is what the
  details store; and the text that a template literal prints for a number reads back
  as that number.
\<close>

lemma is_digit_not_space: "is_digit c \<Longrightarrow> \<not> is_space c"
  by (auto simp: is_digit_def is_space_def)

lemma js_parseInt_digits:
  assumes "ds \<noteq> []" and "list_all is_digit ds"
  shows "js_parseInt ds = Some (int (digits_value ds))"
proof -
  obtain d rest where ds: "ds = d # rest" using assms(1) by (cases ds) auto
  then have d: "is_digit d" using assms(2) by simp
  then have "dropWhile is_space ds = ds"
    using ds is_digit_not_space by simp
  moreover have "d \<noteq> CHR ''-''" "d \<noteq> CHR ''+''"
    using d by (auto simp: is_digit_def)
  moreover have "takeWhile is_digit ds = ds"
    using assms(2) by (simp add: list_all_iff)
  ultimately show ?thesis
    using ds by (simp add: js_parseInt_def Let_def)
qed

lemma digits_value_snoc: "digits_value (ds @ [c]) = 10 * digits_value ds + (of_char c - 48)"
  by (simp add: digits_value_def)

lemma digits_value_dec_digits: "digits_value (dec_digits n) = n"
proof (induction n rule: dec_digits.induct)
  case (1 n)
  show ?case
  proof (cases "n < 10")
    case True
    then show ?thesis
      by (subst dec_digits.simps) (simp add: digits_value_def)
  next
    case False
    have m: "(48 + n mod 10) mod 256 = 48 + n mod 10"
      by (rule mod_less) (simp add: less_le_trans [OF add_strict_left_mono [OF mod_less_divisor]])
    have "digits_value (dec_digits n) =
        10 * digits_value (dec_digits (n div 10)) + (of_char (char_of (48 + n mod 10) :: char) - 48)"
      using False by (subst dec_digits.simps) (simp add: digits_value_snoc)
    then show ?thesis using 1 False m by simp
  qed
qed

section \<open>The entry points\<close>








end
